theory Spec2Isabelle
  imports Main
begin

section \<open>Parser adapter: error-recovery reparse (yaml-intelligence/parsing.ts)\<close>

text \<open>
  The syntax tree of the external parsing engine. The code reads one thing from it,
  \<^verbatim>\<open>tree.rootNode.type\<close>.
\<close>

record tree =
  rootNodeType :: string

text \<open>A half-open range \<^verbatim>\<open>{start, end}\<close> of offsets, as used for line ranges and chunks.\<close>

record span =
  span_start :: int
  span_end :: int

text \<open>An element of \<^verbatim>\<open>rangedLines(text, true)\<close>: \<^verbatim>\<open>{substring, range: {start, end}}\<close>.\<close>

record rangedLine =
  substring :: string
  range :: span

text \<open>
  The cursor, 0-based. The code tests \<^verbatim>\<open>position.row < 0\<close> itself, so the row is an
  integer; the column is the count of characters before the cursor on its line.
\<close>

record position =
  row :: int
  column :: nat

text \<open>
  The text helpers attemptParsesAtLine imports (\<^verbatim>\<open>mapped-text.ts\<close>, \<^verbatim>\<open>ranged-text.ts\<close>,
  \<^verbatim>\<open>text.ts\<close>) are not part of the sources at hand; they are parameters of the model,
  and every theorem holds for all of them. \<open>'ms\<close> is the type MappedString.
  \<^item> \<open>msValue c\<close> is \<^verbatim>\<open>c.value\<close>;
  \<^item> \<open>rangedLines s\<close> is \<^verbatim>\<open>rangedLines(s, true)\<close>;
  \<^item> \<open>rowColToIndex s r c\<close> is \<^verbatim>\<open>rowColToIndex(s)({row: r, column: c})\<close>;
  \<^item> \<open>mappedString c chunks\<close> is \<^verbatim>\<open>mappedString(c, chunks)\<close>.
\<close>

record 'ms textlib =
  msValue :: "'ms \<Rightarrow> string"
  rangedLines :: "string \<Rightarrow> rangedLine list"
  rowColToIndex :: "string \<Rightarrow> int \<Rightarrow> int \<Rightarrow> int"
  mappedString :: "'ms \<Rightarrow> span list \<Rightarrow> 'ms"

text \<open>
  \<^verbatim>\<open>parser.parse(text)\<close>: \<open>None\<close> when the parsing engine throws, the tree otherwise.
\<close>

type_synonym parser = "string \<Rightarrow> tree option"

text \<open>
  YamlIntelligenceContext, restricted to the two fields the function reads;
  \<open>ctx_code\<close> is \<^verbatim>\<open>asMappedString(context.code)\<close>.
\<close>

record 'ms yamlContext =
  ctx_code :: 'ms
  ctx_position :: position

record 'ms ParseAttemptResult =
  parse :: tree
  code :: 'ms
  deletions :: nat

text \<open>
  How a drained generator ends: it returns (also after the \<^verbatim>\<open>catch\<close> of the first parse),
  or the exception of a \<^verbatim>\<open>parser.parse\<close> call inside the loop, which nothing catches,
  reaches the consumer.
\<close>

datatype completion = Returned | Threw

definition clean :: "tree \<Rightarrow> bool" where
  "clean t = (rootNodeType t \<noteq> ''ERROR'')"

text \<open>
  The chunks of one loop iteration (lines 93 to 117), for the value \<open>d\<close> that
  \<^verbatim>\<open>deletions\<close> has there. It is only evaluated when the row is inside \<open>codeLines\<close>.
\<close>

definition chunksAt :: "'ms textlib \<Rightarrow> 'ms \<Rightarrow> rangedLine list \<Rightarrow> position \<Rightarrow> nat \<Rightarrow> span list" where
  "chunksAt L c codeLines pos d =
     (let currentLine = substring (codeLines ! nat (row pos));
          locF = rowColToIndex L (msValue L c)
      in (if row pos > 0
          then [\<lparr>span_start = 0, span_end = span_end (range (codeLines ! nat (row pos - 1)))\<rparr>]
          else [])
       @ (if column pos > d
          then [\<lparr>span_start = locF (row pos) 0,
                 span_end = locF (row pos) (int (column pos - d))\<rparr>]
          else [])
       @ (if row pos + 1 < int (length codeLines)
          then [\<lparr>span_start = locF (row pos) (int (length currentLine) - 1),
                 span_end = locF (row pos + 1) 0\<rparr>,
                \<lparr>span_start = span_start (range (codeLines ! nat (row pos + 1))),
                 span_end = span_end (range (codeLines ! (length codeLines - 1)))\<rparr>]
          else []))"

definition newCodeAt :: "'ms textlib \<Rightarrow> 'ms \<Rightarrow> rangedLine list \<Rightarrow> position \<Rightarrow> nat \<Rightarrow> 'ms" where
  "newCodeAt L c codeLines pos d = mappedString L c (chunksAt L c codeLines pos d)"

text \<open>
  The \<^verbatim>\<open>while (currentColumn > 0)\<close> loop: the first numeric argument is
  \<^verbatim>\<open>currentColumn\<close>, the second \<^verbatim>\<open>deletions\<close>, both as they are when the loop test runs.
  The result is the list of the elements yielded from there on and how the generator ends.
\<close>

fun reparse ::
  "'ms textlib \<Rightarrow> parser \<Rightarrow> 'ms \<Rightarrow> rangedLine list \<Rightarrow> position \<Rightarrow> nat \<Rightarrow> nat
     \<Rightarrow> 'ms ParseAttemptResult list \<times> completion" where
  "reparse L parser c codeLines pos 0 d = ([], Returned)"
| "reparse L parser c codeLines pos (Suc currentColumn) d =
     (let d' = d + 1;
          newCode = newCodeAt L c codeLines pos d'
      in case parser (msValue L newCode) of
           None \<Rightarrow> ([], Threw)
         | Some t \<Rightarrow>
             (let (ys, e) = reparse L parser c codeLines pos currentColumn d'
              in ((if clean t then [\<lparr>parse = t, code = newCode, deletions = d'\<rparr>] else []) @ ys, e)))"

definition attemptParsesAtLine ::
  "'ms textlib \<Rightarrow> 'ms yamlContext \<Rightarrow> parser \<Rightarrow> 'ms ParseAttemptResult list \<times> completion" where
  "attemptParsesAtLine L context parser =
     (let pos = ctx_position context;
          c = ctx_code context
      in case parser (msValue L c) of
           None \<Rightarrow> ([], Returned)
         | Some t \<Rightarrow>
             (let first = (if clean t then [\<lparr>parse = t, code = c, deletions = 0\<rparr>] else []);
                  codeLines = rangedLines L (msValue L c)
              in if row pos \<ge> int (length codeLines) \<or> row pos < 0 then (first, Returned)
                 else (let (ys, e) = reparse L parser c codeLines pos (column pos) 0
                       in (first @ ys, e))))"

section \<open>Indentation locator: getYamlIndentTree (yaml-intelligence/parsing.ts)\<close>

text \<open>
  What the modelled functions can throw: a TypeError (a property read on \<^verbatim>\<open>undefined\<close> or
  \<^verbatim>\<open>null\<close>, iterating a value that is not iterable), the SyntaxError of \<^verbatim>\<open>JSON.parse\<close>,
  and the \<^verbatim>\<open>new Error(message)\<close> of the sources.
\<close>

datatype jsError = TypeError | SyntaxError | InternalError string

text \<open>
  Strings are lists of 8-bit code units. \<^verbatim>\<open>trimStart\<close> and \<^verbatim>\<open>trim\<close> remove JavaScript's
  white space and line terminators; of those, the ones below 256 are listed.
\<close>

definition isWhiteSpace :: "char \<Rightarrow> bool" where
  "isWhiteSpace ch = (ch \<in> set [CHR 0x09, CHR 0x0A, CHR 0x0B, CHR 0x0C, CHR 0x0D, CHR 0x20, CHR 0xA0])"

definition trimStart :: "string \<Rightarrow> string" where
  "trimStart l = dropWhile isWhiteSpace l"

definition trim :: "string \<Rightarrow> string" where
  "trim l = rev (dropWhile isWhiteSpace (rev (dropWhile isWhiteSpace l)))"

definition getIndent :: "string \<Rightarrow> nat" where
  "getIndent l = length l - length (trimStart l)"

text \<open>
  JavaScript arrays: a read outside the array gives \<^verbatim>\<open>undefined\<close> (\<open>None\<close>), and a write
  past the end extends the array, the entries in between being holes, which read as
  \<^verbatim>\<open>undefined\<close> too. The array \<^verbatim>\<open>predecessor\<close> therefore holds values of type \<open>int option\<close>,
  read with \<open>jsGetO\<close>; \<open>jsGet\<close> reads an array without holes.
\<close>

definition jsGet :: "'a list \<Rightarrow> int \<Rightarrow> 'a option" where
  "jsGet xs i = (if 0 \<le> i \<and> i < int (length xs) then Some (xs ! nat i) else None)"

definition jsGetO :: "'a option list \<Rightarrow> int \<Rightarrow> 'a option" where
  "jsGetO xs i = (if 0 \<le> i \<and> i < int (length xs) then xs ! nat i else None)"

definition jsSet :: "'a option list \<Rightarrow> nat \<Rightarrow> 'a option \<Rightarrow> 'a option list" where
  "jsSet xs i v =
     (if i < length xs then xs[i := v] else xs @ replicate (i - length xs) None @ [v])"

text \<open>
  The inner loop \<^verbatim>\<open>while (v >= 0 && indents[v] >= lineIndent) v = predecessor[v]\<close>.
  \<open>v\<close> is \<open>None\<close> when it has become \<^verbatim>\<open>undefined\<close>; every comparison with
  \<^verbatim>\<open>undefined\<close> is false. Nothing in the loop itself bounds the number of iterations, so
  the model is a partial function: \<open>None\<close> is a loop that never ends.
\<close>

partial_function (option) descend ::
  "int option list \<Rightarrow> nat list \<Rightarrow> nat \<Rightarrow> int option \<Rightarrow> int option option" where
  "descend predecessor indents lineIndent v =
     (case v of
        None \<Rightarrow> Some None
      | Some n \<Rightarrow>
          if n \<ge> 0 \<and> (case jsGet indents n of None \<Rightarrow> False | Some x \<Rightarrow> x \<ge> lineIndent)
          then descend predecessor indents lineIndent (jsGetO predecessor n)
          else Some v)"

record indentState =
  predecessor :: "int option list"
  indents :: "nat list"
  indentation :: int
  prevPredecessor :: int

text \<open>
  The body of the \<^verbatim>\<open>for\<close> loop for line \<open>i\<close>, the four cases in the order of the source
  and the \<^verbatim>\<open>throw\<close> of the final \<^verbatim>\<open>else\<close>.
\<close>

definition indentStep :: "nat \<Rightarrow> string \<Rightarrow> indentState \<Rightarrow> (jsError + indentState) option" where
  "indentStep i line st =
     (let lineIndent = getIndent line;
          st = st\<lparr>indents := indents st @ [lineIndent]\<rparr>
      in if int lineIndent > indentation st then
           Some (Inr (st\<lparr>predecessor := jsSet (predecessor st) i (Some (prevPredecessor st)),
                         prevPredecessor := int i,
                         indentation := int lineIndent\<rparr>))
         else if length (trim line) = 0 then
           Some (Inr (st\<lparr>predecessor :=
                           jsSet (predecessor st) i
                             (jsGetO (predecessor st) (prevPredecessor st))\<rparr>))
         else if int lineIndent = indentation st then
           Some (Inr (st\<lparr>predecessor :=
                           jsSet (predecessor st) i
                             (jsGetO (predecessor st) (prevPredecessor st)),
                         prevPredecessor := int i\<rparr>))
         else if int lineIndent < indentation st then
           (case descend (predecessor st) (indents st) lineIndent (Some (prevPredecessor st)) of
              None \<Rightarrow> None
            | Some v \<Rightarrow>
                Some (Inr (st\<lparr>predecessor := jsSet (predecessor st) i v,
                              prevPredecessor := int i,
                              indentation := int lineIndent\<rparr>)))
         else Some (Inl (InternalError ''Internal error, should never have arrived here'')))"

fun indentLoop :: "nat \<Rightarrow> string list \<Rightarrow> indentState \<Rightarrow> (jsError + indentState) option" where
  "indentLoop i [] st = Some (Inr st)"
| "indentLoop i (line # ls) st =
     (case indentStep i line st of
        None \<Rightarrow> None
      | Some (Inl e) \<Rightarrow> Some (Inl e)
      | Some (Inr st') \<Rightarrow> indentLoop (i + 1) ls st')"

text \<open>
  \<^verbatim>\<open>lines\<close> (of \<^verbatim>\<open>text.ts\<close>, not among the sources at hand) is the parameter \<open>lines\<close>.
  The result is \<open>None\<close> if the function does not return, \<open>Inl\<close> if it throws, and the
  pair \<^verbatim>\<open>{predecessor, indentation}\<close> otherwise.
\<close>

definition getYamlIndentTree ::
  "(string \<Rightarrow> string list) \<Rightarrow> string \<Rightarrow> (jsError + int option list \<times> nat list) option" where
  "getYamlIndentTree lines c =
     (case indentLoop 0 (lines c)
             \<lparr>predecessor = [], indents = [], indentation = -1, prevPredecessor = -1\<rparr> of
        None \<Rightarrow> None
      | Some (Inl e) \<Rightarrow> Some (Inl e)
      | Some (Inr st) \<Rightarrow> Some (Inr (predecessor st, indents st)))"

declare descend.simps [code]

text \<open>
  The invariant of the \<^verbatim>\<open>for\<close> loop before line \<open>i\<close>: both arrays have \<open>i\<close> entries,
  every entry of \<^verbatim>\<open>predecessor\<close> is defined and is \<open>-1\<close> or the index of an earlier line,
  \<^verbatim>\<open>prevPredecessor\<close> is \<open>-1\<close> or the index of a line already seen, and it is \<open>-1\<close> only
  while \<^verbatim>\<open>indentation\<close> is negative.
\<close>

definition indentInv :: "nat \<Rightarrow> indentState \<Rightarrow> bool" where
  "indentInv i st =
     (length (predecessor st) = i \<and> length (indents st) = i
      \<and> (\<forall>k < i. \<exists>p. predecessor st ! k = Some p \<and> - 1 \<le> p \<and> p < int k)
      \<and> - 1 \<le> prevPredecessor st \<and> prevPredecessor st < int i
      \<and> (prevPredecessor st < 0 \<longrightarrow> indentation st < 0))"

section \<open>Schemas: classification, walking, normalisation (yaml-validation/schema.ts)\<close>

text \<open>
  \<^verbatim>\<open>Schema\<close> is \<^verbatim>\<open>any\<close>: a schema is a JavaScript value built from JSON data. \<open>Undefined\<close>
  is the value of a property that is not there. Numbers are integers here; objects are
  association lists in property order, with no key twice.
\<close>

datatype jsval =
    Undefined
  | Null
  | Bool bool
  | Num int
  | Str string
  | Arr "jsval list"
  | Obj "(string \<times> jsval) list"

text \<open>The test \<^verbatim>\<open>if (v)\<close>.\<close>

fun truthy :: "jsval \<Rightarrow> bool" where
  "truthy Undefined = False"
| "truthy Null = False"
| "truthy (Bool b) = b"
| "truthy (Num n) = (n \<noteq> 0)"
| "truthy (Str s) = (s \<noteq> [])"
| "truthy (Arr xs) = True"
| "truthy (Obj kvs) = True"

text \<open>
  The read \<^verbatim>\<open>v.k\<close> for the property names the sources use (none of them is a property
  of a string, an array or a prototype) on a value other than \<^verbatim>\<open>undefined\<close> and \<^verbatim>\<open>null\<close>;
  on those two the read throws, which each function below checks first with \<open>nullish\<close>.
\<close>

fun field :: "jsval \<Rightarrow> string \<Rightarrow> jsval" where
  "field (Obj kvs) k = (case map_of kvs k of None \<Rightarrow> Undefined | Some v \<Rightarrow> v)"
| "field v k = Undefined"

definition nullish :: "jsval \<Rightarrow> bool" where
  "nullish v = (v = Undefined \<or> v = Null)"

definition schemaType :: "jsval \<Rightarrow> jsError + jsval" where
  "schemaType schema =
     (if nullish schema then Inl TypeError
      else let t = field schema ''type'' in
        if truthy t then Inr t
        else if truthy (field schema ''anyOf'') then Inr (Str ''anyOf'')
        else if truthy (field schema ''oneOf'') then Inr (Str ''oneOf'')
        else if truthy (field schema ''allOf'') then Inr (Str ''allOf'')
        else if truthy (field schema ''enum'') then Inr (Str ''enum'')
        else Inr (Str ''any''))"

text \<open>Sequencing of calls that may throw: the first exception ends the computation.\<close>

definition bindE :: "jsError + 'a \<Rightarrow> ('a \<Rightarrow> jsError + 'b) \<Rightarrow> jsError + 'b" where
  "bindE m f = (case m of Inl e \<Rightarrow> Inl e | Inr x \<Rightarrow> f x)"

fun mapE :: "('a \<Rightarrow> jsError + 'b) \<Rightarrow> 'a list \<Rightarrow> jsError + 'b list" where
  "mapE f [] = Inr []"
| "mapE f (x # xs) = bindE (f x) (\<lambda>y. bindE (mapE f xs) (\<lambda>ys. Inr (y # ys)))"

text \<open>\<^verbatim>\<open>delete v.k\<close> for each \<open>k\<close> of \<open>names\<close>, and the replacement of the value of a property.\<close>

definition deleteProps :: "string list \<Rightarrow> jsval \<Rightarrow> jsval" where
  "deleteProps names v =
     (case v of Obj kvs \<Rightarrow> Obj (filter (\<lambda>(k, _). k \<notin> set names) kvs) | _ \<Rightarrow> v)"

definition setProp :: "string \<Rightarrow> jsval \<Rightarrow> jsval \<Rightarrow> jsval" where
  "setProp k x v =
     (case v of
        Obj kvs \<Rightarrow> Obj (map (\<lambda>(k', y). if k' = k then (k', x) else (k', y)) kvs)
      | _ \<Rightarrow> v)"

text \<open>
  \<^verbatim>\<open>for (const s of v)\<close>: the elements of an array, the characters of a string, a
  TypeError for any other value that passed the truth test.
\<close>

definition iterate :: "jsval \<Rightarrow> jsError + jsval list" where
  "iterate v =
     (case v of
        Arr xs \<Rightarrow> Inr xs
      | Str cs \<Rightarrow> Inr (map (\<lambda>ch. Str [ch]) cs)
      | _ \<Rightarrow> Inl TypeError)"

text \<open>
  The values \<^verbatim>\<open>v[key]\<close> for \<^verbatim>\<open>key of Object.getOwnPropertyNames(v)\<close>, in order: for an
  array and a string these are the elements and then \<^verbatim>\<open>length\<close>. \<open>withValues\<close> puts the
  values back after the walk has changed them in place.
\<close>

definition ownValues :: "jsval \<Rightarrow> jsval list" where
  "ownValues v =
     (case v of
        Obj kvs \<Rightarrow> map snd kvs
      | Arr xs \<Rightarrow> xs @ [Num (int (length xs))]
      | Str cs \<Rightarrow> map (\<lambda>ch. Str [ch]) cs @ [Num (int (length cs))]
      | _ \<Rightarrow> [])"

definition withValues :: "jsval \<Rightarrow> jsval list \<Rightarrow> jsval" where
  "withValues v ys =
     (case v of
        Obj kvs \<Rightarrow> Obj (zip (map fst kvs) ys)
      | Arr xs \<Rightarrow> Arr (take (length xs) ys)
      | _ \<Rightarrow> v)"

lemma bindE_cong [fundef_cong]:
  "m = m' \<Longrightarrow> (\<And>x. m' = Inr x \<Longrightarrow> f x = g x) \<Longrightarrow> bindE m f = bindE m' g"
  by (auto simp: bindE_def split: sum.splits)

lemma mapE_cong [fundef_cong]:
  "xs = ys \<Longrightarrow> (\<And>x. x \<in> set ys \<Longrightarrow> f x = g x) \<Longrightarrow> mapE f xs = mapE g ys"
proof (induction ys arbitrary: xs)
  case Nil
  then show ?case by simp
next
  case (Cons y ys)
  then show ?case by (auto intro!: bindE_cong)
qed

lemma size_map_of: "map_of kvs k = Some v \<Longrightarrow> size v < size (Obj kvs)"
  by (induction kvs) (auto split: if_splits)

lemma size_field: "field s k \<noteq> Undefined \<Longrightarrow> size (field s k) < size s"
  by (cases s) (auto split: option.splits dest: size_map_of)

lemma size_deleteProps: "size (deleteProps ns s) \<le> size s"
proof (cases s)
  case (Obj kvs)
  have "size_list f (filter P kvs) \<le> size_list f kvs" for f P
    by (induction kvs) auto
  then show ?thesis using Obj by (simp add: deleteProps_def)
qed (simp_all add: deleteProps_def)

lemma size_ownValues:
  assumes "x \<in> set (ownValues v)"
  shows "size x \<le> size v"
proof (cases v)
  case (Obj kvs)
  have "(k, y) \<in> set kvs \<Longrightarrow> size y \<le> size_list (size_prod (\<lambda>_. 0) size) kvs" for k y
    by (induction kvs) auto
  then show ?thesis using Obj assms by (fastforce simp: ownValues_def)
next
  case (Arr xs)
  have "y \<in> set xs \<Longrightarrow> size y \<le> size_list size xs" for y
    by (induction xs) auto
  then show ?thesis using Arr assms by (fastforce simp: ownValues_def)
qed (use assms in \<open>auto simp: ownValues_def\<close>)

lemma size_iterate:
  assumes "iterate v = Inr xs" and "x \<in> set xs"
  shows "size x \<le> size v"
proof (cases v)
  case (Arr ys)
  have "y \<in> set ys \<Longrightarrow> size y \<le> size_list size ys" for y
    by (induction ys) auto
  then show ?thesis using Arr assms by (fastforce simp: iterate_def)
qed (use assms in \<open>auto simp: iterate_def\<close>)

lemma truthy_defined: "truthy v \<Longrightarrow> v \<noteq> Undefined"
  by auto

lemma child_field:
  assumes "truthy (field (deleteProps d s) k)"
  shows "size (field (deleteProps d s) k) < size s"
proof -
  have "size (field (deleteProps d s) k) < size (deleteProps d s)"
    using assms by (intro size_field truthy_defined)
  also have "\<dots> \<le> size s" by (rule size_deleteProps)
  finally show ?thesis .
qed

lemma child_own:
  assumes "truthy (field (deleteProps d s) k)"
    and "x \<in> set (ownValues (field (deleteProps d s) k))"
  shows "size x < size s"
  using size_ownValues [OF assms(2)] child_field [OF assms(1)] by simp

lemma child_iterate:
  assumes "iterate (field (deleteProps d s) k) = Inr xs" and "x \<in> set xs"
  shows "size x < size s"
proof -
  have "field (deleteProps d s) k \<noteq> Undefined"
    using assms(1) by (auto simp: iterate_def)
  then have "size (field (deleteProps d s) k) < size (deleteProps d s)"
    by (rule size_field)
  also have "\<dots> \<le> size s" by (rule size_deleteProps)
  finally show ?thesis using size_iterate [OF assms] by simp
qed

text \<open>
  \<^verbatim>\<open>walkSchema(schema, f)\<close> calls \<open>f\<close> on the node for its effect and then walks the
  children that the node's type selects. The model covers the callbacks that delete
  properties of the node they are given, the kind normalizeSchema passes: \<open>f node\<close> is
  the list of the names it deletes, or the exception it throws. The schema has been
  copied by then, so it is a tree without sharing, and the walk returns the tree as the
  in-place deletions leave it.
\<close>

type_synonym callback = "jsval \<Rightarrow> jsError + string list"

function walkSchema :: "callback \<Rightarrow> jsval \<Rightarrow> jsError + jsval" where
  "walkSchema f schema =
     bindE (f schema) (\<lambda>deleted.
       let node = deleteProps deleted schema in
       bindE (schemaType node) (\<lambda>t.
         if t = Str ''array'' then
           (if truthy (field node ''items'')
            then bindE (walkSchema f (field node ''items''))
                   (\<lambda>items. Inr (setProp ''items'' items node))
            else Inr node)
         else if t = Str ''anyOf'' then
           bindE (iterate (field node ''anyOf'')) (\<lambda>members.
             bindE (mapE (walkSchema f) members) (\<lambda>ws.
               Inr (setProp ''anyOf'' (withValues (field node ''anyOf'') ws) node)))
         else if t = Str ''oneOf'' then
           bindE (iterate (field node ''oneOf'')) (\<lambda>members.
             bindE (mapE (walkSchema f) members) (\<lambda>ws.
               Inr (setProp ''oneOf'' (withValues (field node ''oneOf'') ws) node)))
         else if t = Str ''allOf'' then
           bindE (iterate (field node ''allOf'')) (\<lambda>members.
             bindE (mapE (walkSchema f) members) (\<lambda>ws.
               Inr (setProp ''allOf'' (withValues (field node ''allOf'') ws) node)))
         else if t = Str ''object'' then
           bindE (if truthy (field node ''properties'')
                  then bindE (mapE (walkSchema f) (ownValues (field node ''properties'')))
                         (\<lambda>ws. Inr (withValues (field node ''properties'') ws))
                  else Inr (field node ''properties'')) (\<lambda>props.
           bindE (if truthy (field node ''patternProperties'')
                  then bindE (mapE (walkSchema f) (ownValues (field node ''patternProperties'')))
                         (\<lambda>ws. Inr (withValues (field node ''patternProperties'') ws))
                  else Inr (field node ''patternProperties'')) (\<lambda>patternProps.
           bindE (if truthy (field node ''additionalProperties'')
                  then walkSchema f (field node ''additionalProperties'')
                  else Inr (field node ''additionalProperties'')) (\<lambda>additional.
             Inr (setProp ''additionalProperties'' additional
                   (setProp ''patternProperties'' patternProps
                     (setProp ''properties'' props node))))))
         else Inr node))"
  by pat_completeness auto
termination
proof (relation "measure (\<lambda>(f, schema). size schema)")
qed (auto intro: child_field child_own child_iterate)

text \<open>
  \<^verbatim>\<open>JSON.parse(JSON.stringify(schema))\<close>: a property whose value is \<^verbatim>\<open>undefined\<close> is left
  out, an \<^verbatim>\<open>undefined\<close> array element becomes \<^verbatim>\<open>null\<close>, and \<^verbatim>\<open>JSON.parse(undefined)\<close>
  throws.
\<close>

fun jsonClone :: "jsval \<Rightarrow> jsval" where
  "jsonClone (Obj kvs) =
     Obj (map (\<lambda>(k, v). (k, jsonClone v)) (filter (\<lambda>(k, v). v \<noteq> Undefined) kvs))"
| "jsonClone (Arr xs) = Arr (map (\<lambda>x. if x = Undefined then Null else jsonClone x) xs)"
| "jsonClone v = v"

definition deepCopy :: "jsval \<Rightarrow> jsError + jsval" where
  "deepCopy v = (if v = Undefined then Inl SyntaxError else Inr (jsonClone v))"

text \<open>The arrow function normalizeSchema passes to walkSchema (lines 177 to 190).\<close>

definition stripAuthoring :: callback where
  "stripAuthoring schema =
     (if nullish schema then Inl TypeError
      else Inr (filter (\<lambda>k. truthy (field schema k))
                  [''completions'', ''exhaustiveCompletions'', ''documentation'', ''tags'']))"

definition normalizeSchema :: "jsval \<Rightarrow> jsError + jsval" where
  "normalizeSchema schema = bindE (deepCopy schema) (walkSchema stripAuthoring)"

section \<open>The schema registry (schema.ts, definitions.ts)\<close>

text \<open>
  A property key is the string of the value used as key (\<^verbatim>\<open>definitionsObject[schema.$id]\<close>):
  \<open>toStringJS\<close> is JavaScript's conversion of a value to a string.
\<close>

definition digitChar :: "nat \<Rightarrow> char" where
  "digitChar n = ''0123456789'' ! n"

fun showNat :: "nat \<Rightarrow> string" where
  "showNat n = (if n < 10 then [digitChar n] else showNat (n div 10) @ [digitChar (n mod 10)])"

definition showInt :: "int \<Rightarrow> string" where
  "showInt i = (if i < 0 then CHR ''-'' # showNat (nat (- i)) else showNat (nat i))"

fun joinWith :: "string \<Rightarrow> string list \<Rightarrow> string" where
  "joinWith sep [] = []"
| "joinWith sep [x] = x"
| "joinWith sep (x # y # ys) = x @ sep @ joinWith sep (y # ys)"

fun toStringJS :: "jsval \<Rightarrow> string" where
  "toStringJS Undefined = ''undefined''"
| "toStringJS Null = ''null''"
| "toStringJS (Bool b) = (if b then ''true'' else ''false'')"
| "toStringJS (Num n) = showInt n"
| "toStringJS (Str s) = s"
| "toStringJS (Arr xs) =
     joinWith '','' (map (\<lambda>x. if x = Undefined \<or> x = Null then [] else toStringJS x) xs)"
| "toStringJS (Obj kvs) = ''[object Object]''"

text \<open>
  \<^verbatim>\<open>definitionsObject\<close> is created as \<^verbatim>\<open>{}\<close>: the registry is the map of its own properties,
  and a read of a key it does not own finds what \<^verbatim>\<open>Object.prototype\<close> has under that
  name, if anything.
\<close>

type_synonym registry = "string \<rightharpoonup> jsval"

definition objectPrototypeKeys :: "string list" where
  "objectPrototypeKeys =
     [''constructor'', ''__defineGetter__'', ''__defineSetter__'', ''hasOwnProperty'',
      ''__lookupGetter__'', ''__lookupSetter__'', ''isPrototypeOf'', ''propertyIsEnumerable'',
      ''toString'', ''valueOf'', ''__proto__'', ''toLocaleString'']"

datatype found = Own jsval | Inherited

text \<open>The read \<^verbatim>\<open>definitionsObject[k]\<close>; \<open>None\<close> is \<^verbatim>\<open>undefined\<close>.\<close>

definition definitionsLookup :: "registry \<Rightarrow> string \<Rightarrow> found option" where
  "definitionsLookup definitionsObject k =
     (case definitionsObject k of
        Some v \<Rightarrow> (if v = Undefined then None else Some (Own v))
      | None \<Rightarrow> (if k \<in> set objectPrototypeKeys then Some Inherited else None))"

definition hasSchemaDefinition :: "registry \<Rightarrow> jsval \<Rightarrow> bool" where
  "hasSchemaDefinition definitionsObject key =
     (definitionsLookup definitionsObject (toStringJS key) \<noteq> None)"

definition getSchemaDefinition :: "registry \<Rightarrow> jsval \<Rightarrow> jsError + found" where
  "getSchemaDefinition definitionsObject key =
     (case definitionsLookup definitionsObject (toStringJS key) of
        None \<Rightarrow> Inl (InternalError (''Internal Error: Schema '' @ toStringJS key @ '' not found.''))
      | Some v \<Rightarrow> Inr v)"

definition setSchemaDefinition :: "registry \<Rightarrow> jsval \<Rightarrow> jsError + registry" where
  "setSchemaDefinition definitionsObject schema =
     (if nullish schema then Inl TypeError
      else let k = toStringJS (field schema ''$id'') in
        if definitionsLookup definitionsObject k = None
        then Inr (definitionsObject(k \<mapsto> schema))
        else Inr definitionsObject)"

text \<open>
  \<^verbatim>\<open>define(schema)\<close> of definitions.ts (the name \<open>define\<close> is a keyword of Isabelle). The
  result is the registry after the call and what else the call did: it threw, it handed
  the normalised schema to \<^verbatim>\<open>withValidator\<close>, or (\<open>Inr None\<close>) it did nothing.
\<close>

definition defineSchema :: "registry \<Rightarrow> jsval \<Rightarrow> registry \<times> (jsError + jsval option)" where
  "defineSchema definitionsObject schema =
     (if nullish schema then (definitionsObject, Inl TypeError)
      else if \<not> hasSchemaDefinition definitionsObject (field schema ''$id'') then
        (case setSchemaDefinition definitionsObject schema of
           Inl e \<Rightarrow> (definitionsObject, Inl e)
         | Inr definitionsObject' \<Rightarrow>
             (definitionsObject',
              case normalizeSchema schema of Inl e \<Rightarrow> Inl e | Inr n \<Rightarrow> Inr (Some n)))
      else (definitionsObject, Inr None))"

section \<open>Diagnostic handlers (yaml-validation/errors.ts)\<close>

record 'loc TidyverseError =
  heading :: string
  error :: "string list"
  info :: "string list"
  location :: 'loc

text \<open>
  The fields of the validation engine's error that the two handlers read. \<open>params\<close> and
  \<open>parentSchema\<close> are \<open>Undefined\<close> when the error has no such field.
\<close>

record ajvError =
  keyword :: string
  ajv_instancePath :: string
  schemaPath :: string
  params :: jsval
  parentSchema :: jsval

text \<open>
  LocalizedError; \<open>violatingObject_result\<close> is \<^verbatim>\<open>error.violatingObject.result\<close>, and
  \<open>'src\<close> is the type of the mapped source text.
\<close>

record ('loc, 'src) LocalizedError =
  ajvError :: ajvError
  violatingObject_result :: jsval
  instancePath :: string
  err_location :: 'loc
  source :: 'src
  niceError :: "'loc TidyverseError"

text \<open>
  The handlers' second argument, the annotated parse (\<^verbatim>\<open>parse\<close> in the source), is \<open>annotated\<close>.
  What the handlers import from files that are not among the sources at hand, as
  parameters; every theorem holds for all of them.
  \<^item> \<open>quotedStringColor\<close>, \<open>addInstancePathInfo\<close>, \<open>addFileInfo\<close> (\<^verbatim>\<open>../errors.ts\<close>; the two
    \<^verbatim>\<open>add\<close> functions update the TidyverseError they are given), \<open>blue\<close> (\<^verbatim>\<open>colors.blue\<close>),
    \<open>getVerbatimInput\<close> (\<^verbatim>\<open>yaml-schema.ts\<close>), \<open>editDistance\<close> (\<^verbatim>\<open>../text.ts\<close>);
  \<^item> \<open>schemaKeys id\<close> is \<^verbatim>\<open>possibleSchemaKeys(resolveSchema({ $ref: id }))\<close>, which throws
    for an identifier that is not registered;
  \<^item> \<open>toNumberString s\<close> is \<^verbatim>\<open>String(Number(s))\<close>, and \<open>None\<close> when \<^verbatim>\<open>Number(s)\<close> is NaN;
  \<^item> \<open>formatHeading\<close> (lines 119 to 159) composes the heading text from
    \<open>getVerbatimInput\<close>, \<open>quotedStringColor\<close>, \<open>blue\<close> and the schema navigation of
    \<^verbatim>\<open>schema-navigation.ts\<close>; the two handlers below only store its result.
\<close>

record ('loc, 'src, 'parse) errlib =
  quotedStringColor :: "string \<Rightarrow> string"
  blue :: "string \<Rightarrow> string"
  getVerbatimInput :: "('loc, 'src) LocalizedError \<Rightarrow> string"
  formatHeading :: "('loc, 'src) LocalizedError \<Rightarrow> 'parse \<Rightarrow> jsval \<Rightarrow> string"
  addInstancePathInfo :: "'loc TidyverseError \<Rightarrow> string \<Rightarrow> 'loc TidyverseError"
  addFileInfo :: "'loc TidyverseError \<Rightarrow> 'src \<Rightarrow> 'loc TidyverseError"
  editDistance :: "string \<Rightarrow> string \<Rightarrow> nat"
  schemaKeys :: "jsval \<Rightarrow> jsError + string list"
  toNumberString :: "string \<Rightarrow> string option"

definition yesses :: "string list" where
  "yesses = [''y'', ''Y'', ''yes'', ''Yes'', ''YES'', ''true'', ''True'', ''TRUE'', ''on'', ''On'', ''ON'']"

definition nos :: "string list" where
  "nos = [''n'', ''N'', ''no'', ''No'', ''NO'', ''false'', ''False'', ''FALSE'', ''off'', ''Off'', ''OFF'']"

text \<open>
  The TidyverseError that checkForBadBoolean builds once \<^verbatim>\<open>fix\<close> is known (lines 283
  to 295).
\<close>

definition badBooleanError ::
  "('loc, 'src, 'parse) errlib \<Rightarrow> ('loc, 'src) LocalizedError \<Rightarrow> 'parse \<Rightarrow> jsval \<Rightarrow> bool
     \<Rightarrow> 'loc TidyverseError" where
  "badBooleanError L e annotated schema fix =
     (let verbatimInput = quotedStringColor L (getVerbatimInput L e);
          errorMessage = ''The value '' @ verbatimInput @ '' is a string.'';
          suggestion1 = ''Quarto uses YAML 1.2, which interprets booleans strictly.'';
          suggestion2 = ''Try using '' @ quotedStringColor L (toStringJS (Bool fix)) @ '' instead.'';
          newError = \<lparr>heading = formatHeading L e annotated schema, error = [errorMessage],
                      info = [], location = location (niceError e)\<rparr>;
          newError = addInstancePathInfo L newError (ajv_instancePath (ajvError e));
          newError = addFileInfo L newError (source e)
      in newError\<lparr>info := info newError @ [suggestion1, suggestion2]\<rparr>)"

text \<open>
  checkForBadBoolean. Its first statement reads \<^verbatim>\<open>error.ajvError.params.schema\<close> with no
  guard, which throws when the error has no \<^verbatim>\<open>params\<close>; the schema it then looks at is
  that value alone.
\<close>

definition checkForBadBoolean ::
  "('loc, 'src, 'parse) errlib \<Rightarrow> ('loc, 'src) LocalizedError \<Rightarrow> 'parse \<Rightarrow> jsval
     \<Rightarrow> jsError + ('loc, 'src) LocalizedError" where
  "checkForBadBoolean L e annotated schema0 =
     (if nullish (params (ajvError e)) then Inl TypeError
      else let schema = field (params (ajvError e)) ''schema'' in
        case violatingObject_result e of
          Str strValue \<Rightarrow>
            if \<not> (keyword (ajvError e) = ''type''
                  \<and> (truthy schema \<and> field schema ''type'' = Str ''boolean''))
            then Inr e
            else if strValue \<in> set yesses
            then Inr (e\<lparr>niceError := badBooleanError L e annotated schema True\<rparr>)
            else if strValue \<in> set nos
            then Inr (e\<lparr>niceError := badBooleanError L e annotated schema False\<rparr>)
            else Inr e
        | _ \<Rightarrow> Inr e)"

text \<open>
  getLastFragment returns \<^verbatim>\<open>undefined\<close>, a number or a string; the number is kept as the
  string that \<^verbatim>\<open>String\<close> makes of it, the only use checkForSimilarKey has for it.
\<close>

datatype fragment = FragUndefined | FragNumber string | FragString string

fun splitOn :: "char \<Rightarrow> string \<Rightarrow> string list" where
  "splitOn sep [] = [[]]"
| "splitOn sep (ch # cs) =
     (if ch = sep then [] # splitOn sep cs
      else (case splitOn sep cs of [] \<Rightarrow> [[ch]] | w # ws \<Rightarrow> (ch # w) # ws))"

definition getLastFragment :: "('loc, 'src, 'parse) errlib \<Rightarrow> string \<Rightarrow> fragment" where
  "getLastFragment L path =
     (let splitPath = splitOn CHR ''/'' path in
      if length splitPath = 0 then FragUndefined
      else let lastFragment = last splitPath in
        if lastFragment = [] then FragUndefined
        else (case toNumberString L lastFragment of
                Some n \<Rightarrow> FragNumber n
              | None \<Rightarrow> FragString lastFragment))"

fun fragmentString :: "fragment \<Rightarrow> string" where
  "fragmentString FragUndefined = ''undefined''"
| "fragmentString (FragNumber n) = n"
| "fragmentString (FragString s) = s"

text \<open>
  One iteration of \<^verbatim>\<open>for (const key of keys)\<close>. The state is \<open>None\<close> while
  \<^verbatim>\<open>bestKey\<close> is \<^verbatim>\<open>undefined\<close> and \<^verbatim>\<open>bestDistance\<close> is \<^verbatim>\<open>Infinity\<close>, which every distance
  is below; the two variables are only ever assigned together.
\<close>

fun bestStep ::
  "(string \<Rightarrow> string \<Rightarrow> nat) \<Rightarrow> string \<Rightarrow> (string list \<times> nat) option \<Rightarrow> string
     \<Rightarrow> (string list \<times> nat) option" where
  "bestStep ed lastFragment None key = Some ([key], ed key lastFragment)"
| "bestStep ed lastFragment (Some (bestKey, bestDistance)) key =
     (let d = ed key lastFragment in
      if d < bestDistance then Some ([key], d)
      else if d = bestDistance then Some (bestKey @ [key], d)
      else Some (bestKey, bestDistance))"

text \<open>
  The sentence pushed to \<^verbatim>\<open>info\<close> (lines 405 to 417). With no suggestion at all, which
  the handler never reaches, the assignment to index \<open>-1\<close> adds no element and the join
  is empty.
\<close>

definition didYouMean :: "string list \<Rightarrow> string" where
  "didYouMean suggestions =
     (if length suggestions = 1 then ''Did you mean '' @ suggestions ! 0 @ ''?''
      else if length suggestions = 2
      then ''Did you mean '' @ suggestions ! 0 @ '' or '' @ suggestions ! 1 @ ''?''
      else if suggestions = [] then ''Did you mean ?''
      else ''Did you mean ''
             @ joinWith '', '' (butlast suggestions @ [''or '' @ last suggestions]) @ ''?'')"

text \<open>
  checkForSimilarKey. The test \<^verbatim>\<open>bestDistance * 0.3 > lastFragment.length\<close> is on doubles;
  for a distance \<open>d\<close> and a length \<open>n\<close> that are natural numbers below \<open>2^50\<close> it holds
  exactly when \<open>3 * d > 10 * n\<close>: the double nearest to \<open>0.3\<close> is below \<open>0.3\<close> by less
  than \<open>2^-54\<close>, so the rounded product is above \<open>n\<close> when \<open>3 * d \<ge> 10 * n + 1\<close> and at most
  \<open>n\<close> otherwise. With \<^verbatim>\<open>Infinity\<close> (the state \<open>None\<close>) the test holds. The schema of the
  error is \<^verbatim>\<open>(params && params.schema) || parentSchema\<close>.
\<close>

definition checkForSimilarKey ::
  "('loc, 'src, 'parse) errlib \<Rightarrow> ('loc, 'src) LocalizedError \<Rightarrow> 'parse \<Rightarrow> jsval
     \<Rightarrow> jsError + ('loc, 'src) LocalizedError" where
  "checkForSimilarKey L e annotated schema =
     (let lastFragment = fragmentString (getLastFragment L (instancePath e));
          errorSchema = (if truthy (params (ajvError e))
                            \<and> truthy (field (params (ajvError e)) ''schema'')
                         then field (params (ajvError e)) ''schema''
                         else parentSchema (ajvError e))
      in if errorSchema = Undefined then Inr e
         else if errorSchema = Null then Inl TypeError
         else (case schemaKeys L (field errorSchema ''$id'') of
                 Inl err \<Rightarrow> Inl err
               | Inr keys \<Rightarrow>
                   if length keys = 0 then Inr e
                   else (case foldl (bestStep (editDistance L) lastFragment) None keys of
                           None \<Rightarrow> Inr e
                         | Some (bestKey, bestDistance) \<Rightarrow>
                             if 3 * bestDistance > 10 * length lastFragment then Inr e
                             else Inr (e\<lparr>niceError := (niceError e)
                                    \<lparr>info := info (niceError e)
                                       @ [didYouMean (map (blue L) bestKey)]\<rparr>\<rparr>))))"

section \<open>Concrete inputs for the examples\<close>

text \<open>
  What the text helpers compute on a buffer of one line, with a plain string as mapped
  string: the line is the whole buffer, the offset of a column of row 0 is the column,
  and the value of the mapped string made of chunks is the concatenation of the
  substrings the chunks select.
\<close>

definition singleLineLib :: "string textlib" where
  "singleLineLib =
     \<lparr>msValue = (\<lambda>s. s),
      rangedLines = (\<lambda>s. [\<lparr>substring = s, range = \<lparr>span_start = 0, span_end = int (length s)\<rparr>\<rparr>]),
      rowColToIndex = (\<lambda>s r c. c),
      mappedString = (\<lambda>s chunks.
         concat (map (\<lambda>ch. take (nat (span_end ch - span_start ch)) (drop (nat (span_start ch)) s))
                   chunks))\<rparr>"

text \<open>
  Two parsing engines for the examples: one that finds every text clean, and one that
  reports a syntax error exactly for a text with an opening bracket in it (an unclosed
  flow sequence).
\<close>

definition okParser :: parser where
  "okParser s = Some \<lparr>rootNodeType = ''stream''\<rparr>"

definition flowParser :: parser where
  "flowParser s = Some \<lparr>rootNodeType = (if CHR ''['' \<in> set s then ''ERROR'' else ''stream'')\<rparr>"

text \<open>
  Helpers for the diagnostic handlers in the examples: no colours, no added path or file
  information, a fixed heading, no numeric path fragments, one registered schema \<open>doc\<close>
  whose only key is \<open>abd\<close>, and as distance of two keys the number of positions at which
  they differ plus the difference of their lengths. Then three validation errors: the
  string \<open>yes\<close> where a boolean is required, with the boolean schema under
  \<^verbatim>\<open>params.schema\<close>; the same with the boolean schema as \<^verbatim>\<open>parentSchema\<close> and the \<^verbatim>\<open>params\<close> of
  a type error of the validation engine; and the unknown key \<open>abc\<close>.
\<close>

definition plainErrlib :: "(unit, unit, unit) errlib" where
  "plainErrlib =
     \<lparr>quotedStringColor = (\<lambda>s. s),
      blue = (\<lambda>s. s),
      getVerbatimInput = (\<lambda>e. toStringJS (violatingObject_result e)),
      formatHeading = (\<lambda>e annotated schema. ''Key has a wrong value''),
      addInstancePathInfo = (\<lambda>t path. t),
      addFileInfo = (\<lambda>t src. t),
      editDistance = (\<lambda>a b. length (filter (\<lambda>(x, y). x \<noteq> y) (zip a b))
                              + (length a - length b) + (length b - length a)),
      schemaKeys = (\<lambda>id. if id = Str ''doc'' then Inr [''abd'']
                         else Inl (InternalError ''schema not found'')),
      toNumberString = (\<lambda>s. None)\<rparr>"

definition yesError :: "(unit, unit) LocalizedError" where
  "yesError =
     \<lparr>ajvError = \<lparr>keyword = ''type'', ajv_instancePath = ''/toc'', schemaPath = ''#/properties/toc/type'',
                   params = Obj [(''schema'', Obj [(''type'', Str ''boolean'')])], parentSchema = Undefined\<rparr>,
      violatingObject_result = Str ''yes'',
      instancePath = ''/toc'',
      err_location = (),
      source = (),
      niceError = \<lparr>heading = ''Validation error'', error = [], info = [], location = ()\<rparr>\<rparr>"

definition yesParentError :: "(unit, unit) LocalizedError" where
  "yesParentError =
     \<lparr>ajvError = \<lparr>keyword = ''type'', ajv_instancePath = ''/toc'', schemaPath = ''#/properties/toc/type'',
                   params = Obj [(''type'', Str ''boolean'')],
                   parentSchema = Obj [(''type'', Str ''boolean'')]\<rparr>,
      violatingObject_result = Str ''yes'',
      instancePath = ''/toc'',
      err_location = (),
      source = (),
      niceError = \<lparr>heading = ''Validation error'', error = [], info = [], location = ()\<rparr>\<rparr>"

definition abcError :: "(unit, unit) LocalizedError" where
  "abcError =
     \<lparr>ajvError = \<lparr>keyword = ''_custom_invalidProperty'', ajv_instancePath = ''/abc'',
                   schemaPath = ''#/propertyNames'',
                   params = Obj [(''schema'', Obj [(''$id'', Str ''doc'')])], parentSchema = Undefined\<rparr>,
      violatingObject_result = Str ''abc'',
      instancePath = ''/abc'',
      err_location = (),
      source = (),
      niceError = \<lparr>heading = ''Validation error'', error = [], info = [], location = ()\<rparr>\<rparr>"

section \<open>Properties of the parser adapter\<close>

lemma reparse_length: "length (fst (reparse L p c cl pos n d)) \<le> n"
proof (induction n arbitrary: d)
  case 0
  then show ?case by simp
next
  case (Suc n)
  show ?case
  proof (cases "p (msValue L (newCodeAt L c cl pos (d + 1)))")
    case None
    then show ?thesis by simp
  next
    case (Some t)
    obtain ys r where rec: "reparse L p c cl pos n (d + 1) = (ys, r)"
      by (cases "reparse L p c cl pos n (d + 1)")
    have "length ys \<le> n" using Suc.IH [of "d + 1"] rec by simp
    with Some rec show ?thesis by simp
  qed
qed

lemma reparse_element:
  "e \<in> set (fst (reparse L p c cl pos n d)) \<Longrightarrow>
     d < deletions e \<and> deletions e \<le> d + n \<and> clean (parse e)
       \<and> code e = newCodeAt L c cl pos (deletions e)
       \<and> p (msValue L (code e)) = Some (parse e)"
proof (induction n arbitrary: d)
  case 0
  then show ?case by simp
next
  case (Suc n)
  show ?case
  proof (cases "p (msValue L (newCodeAt L c cl pos (d + 1)))")
    case None
    with Suc.prems show ?thesis by simp
  next
    case (Some t)
    obtain ys r where rec: "reparse L p c cl pos n (d + 1) = (ys, r)"
      by (cases "reparse L p c cl pos n (d + 1)")
    from Suc.prems Some rec
    have "(clean t \<and> e = \<lparr>parse = t, code = newCodeAt L c cl pos (d + 1), deletions = d + 1\<rparr>)
            \<or> e \<in> set ys"
      by (auto split: if_splits)
    then show ?thesis
    proof
      assume "clean t \<and> e = \<lparr>parse = t, code = newCodeAt L c cl pos (d + 1), deletions = d + 1\<rparr>"
      with Some show ?thesis by simp
    next
      assume "e \<in> set ys"
      then have "e \<in> set (fst (reparse L p c cl pos n (d + 1)))" using rec by simp
      from Suc.IH [OF this]
      have "d + 1 < deletions e" "deletions e \<le> d + 1 + n" "clean (parse e)"
        "code e = newCodeAt L c cl pos (deletions e)" "p (msValue L (code e)) = Some (parse e)"
        by blast+
      then show ?thesis by (intro conjI) simp_all
    qed
  qed
qed

lemma reparse_sorted: "sorted_wrt (<) (map deletions (fst (reparse L p c cl pos n d)))"
proof (induction n arbitrary: d)
  case 0
  then show ?case by simp
next
  case (Suc n)
  show ?case
  proof (cases "p (msValue L (newCodeAt L c cl pos (d + 1)))")
    case None
    then show ?thesis by simp
  next
    case (Some t)
    obtain ys r where rec: "reparse L p c cl pos n (d + 1) = (ys, r)"
      by (cases "reparse L p c cl pos n (d + 1)")
    have later: "\<forall>e \<in> set ys. d + 1 < deletions e"
      using reparse_element [of _ L p c cl pos n "d + 1"] rec by auto
    have "sorted_wrt (<) (map deletions ys)"
      using Suc.IH [of "d + 1"] rec by simp
    with later Some rec show ?thesis by auto
  qed
qed

lemma reparse_all:
  "(\<And>k. d < k \<Longrightarrow> k \<le> d + n \<Longrightarrow> p (msValue L (newCodeAt L c cl pos k)) \<noteq> None) \<Longrightarrow>
   reparse L p c cl pos n d
     = (map (\<lambda>k. \<lparr>parse = the (p (msValue L (newCodeAt L c cl pos k))),
                   code = newCodeAt L c cl pos k, deletions = k\<rparr>)
          (filter (\<lambda>k. clean (the (p (msValue L (newCodeAt L c cl pos k))))) [d + 1 ..< d + n + 1]),
        Returned)"
proof (induction n arbitrary: d)
  case 0
  then show ?case by simp
next
  case (Suc n)
  have "p (msValue L (newCodeAt L c cl pos (d + 1))) \<noteq> None"
    using Suc.prems [of "d + 1"] by simp
  then obtain t where t: "p (msValue L (newCodeAt L c cl pos (d + 1))) = Some t" by auto
  have IH: "reparse L p c cl pos n (d + 1)
     = (map (\<lambda>k. \<lparr>parse = the (p (msValue L (newCodeAt L c cl pos k))),
                   code = newCodeAt L c cl pos k, deletions = k\<rparr>)
          (filter (\<lambda>k. clean (the (p (msValue L (newCodeAt L c cl pos k)))))
             [d + 1 + 1 ..< d + 1 + n + 1]),
        Returned)"
    by (rule Suc.IH) (use Suc.prems in auto)
  have split: "[d + 1 ..< d + Suc n + 1] = (d + 1) # [d + 1 + 1 ..< d + 1 + n + 1]"
    by (simp add: upt_conv_Cons)
  show ?case
    unfolding split using t IH by simp
qed

text \<open>
  Claim C4. For every buffer and cursor position, attemptParsesAtLine terminates (the
  model is a total function: the loop is a structural recursion on
  \<^verbatim>\<open>currentColumn\<close>), it yields at most one plus the cursor's column elements, and the
  deletions of successive elements are strictly increasing.
\<close>

theorem attemptParsesAtLine_bounded_increasing:
  "length (fst (attemptParsesAtLine L ctx parser)) \<le> 1 + column (ctx_position ctx)
     \<and> sorted_wrt (<) (map deletions (fst (attemptParsesAtLine L ctx parser)))"
proof (cases "parser (msValue L (ctx_code ctx))")
  case None
  then show ?thesis by (simp add: attemptParsesAtLine_def)
next
  case (Some t)
  define pos where "pos = ctx_position ctx"
  define cl where "cl = rangedLines L (msValue L (ctx_code ctx))"
  obtain ys r where rec: "reparse L parser (ctx_code ctx) cl pos (column pos) 0 = (ys, r)"
    by (cases "reparse L parser (ctx_code ctx) cl pos (column pos) 0")
  have len: "length ys \<le> column pos"
    using reparse_length [of L parser "ctx_code ctx" cl pos "column pos" 0] rec by simp
  have pos: "\<forall>e \<in> set ys. 0 < deletions e"
    using reparse_element [of _ L parser "ctx_code ctx" cl pos "column pos" 0] rec by auto
  have sorted: "sorted_wrt (<) (map deletions ys)"
    using reparse_sorted [of L parser "ctx_code ctx" cl pos "column pos" 0] rec by simp
  show ?thesis
    using Some rec len pos sorted
    by (auto simp: attemptParsesAtLine_def Let_def pos_def [symmetric] cl_def [symmetric])
qed

theorem attemptParsesAtLine_bounded_increasing_witness:
  "map deletions (fst (attemptParsesAtLine singleLineLib
       \<lparr>ctx_code = ''a: [b'', ctx_position = \<lparr>row = 0, column = 5\<rparr>\<rparr> flowParser)) = [2, 3, 4, 5]
   \<and> length (fst (attemptParsesAtLine singleLineLib
       \<lparr>ctx_code = ''a: [b'', ctx_position = \<lparr>row = 0, column = 5\<rparr>\<rparr> flowParser)) \<le> 1 + 5
   \<and> sorted_wrt (<) (map deletions (fst (attemptParsesAtLine singleLineLib
       \<lparr>ctx_code = ''a: [b'', ctx_position = \<lparr>row = 0, column = 5\<rparr>\<rparr> flowParser)))"
proof -
  have "map deletions (fst (attemptParsesAtLine singleLineLib
       \<lparr>ctx_code = ''a: [b'', ctx_position = \<lparr>row = 0, column = 5\<rparr>\<rparr> flowParser)) = [2, 3, 4, 5]"
    by (simp add: attemptParsesAtLine_def singleLineLib_def flowParser_def clean_def
        newCodeAt_def chunksAt_def eval_nat_numeral)
  then show ?thesis
    using attemptParsesAtLine_bounded_increasing [of singleLineLib
        "\<lparr>ctx_code = ''a: [b'', ctx_position = \<lparr>row = 0, column = 5\<rparr>\<rparr>" flowParser]
    by simp
qed

text \<open>
  Claim C9. Every element yielded by attemptParsesAtLine carries a clean parse: the
  root node type of its tree is not ERROR, and the tree is the parse of the element's
  own text, so a failed attempt is never yielded. Its deletions are at most the
  cursor's column, and an element with 0 deletions is the full-buffer parse, the first
  element of the sequence.
\<close>

theorem attemptParsesAtLine_yields_clean:
  assumes "e \<in> set (fst (attemptParsesAtLine L ctx parser))"
  shows "rootNodeType (parse e) \<noteq> ''ERROR''
     \<and> parser (msValue L (code e)) = Some (parse e)
     \<and> deletions e \<le> column (ctx_position ctx)
     \<and> (deletions e = 0 \<longrightarrow>
          code e = ctx_code ctx \<and> e = hd (fst (attemptParsesAtLine L ctx parser)))"
proof (cases "parser (msValue L (ctx_code ctx))")
  case None
  with assms show ?thesis by (simp add: attemptParsesAtLine_def)
next
  case (Some t)
  define pos where "pos = ctx_position ctx"
  define cl where "cl = rangedLines L (msValue L (ctx_code ctx))"
  define first where
    "first = (if clean t then [\<lparr>parse = t, code = ctx_code ctx, deletions = 0\<rparr>] else [])"
  obtain ys r where rec: "reparse L parser (ctx_code ctx) cl pos (column pos) 0 = (ys, r)"
    by (cases "reparse L parser (ctx_code ctx) cl pos (column pos) 0")
  have ys: "d \<in> set ys \<Longrightarrow> 0 < deletions d \<and> deletions d \<le> column pos \<and> clean (parse d)
      \<and> parser (msValue L (code d)) = Some (parse d)" for d
    using reparse_element [of d L parser "ctx_code ctx" cl pos "column pos" 0] rec by force
  have res: "fst (attemptParsesAtLine L ctx parser) = first
      \<or> fst (attemptParsesAtLine L ctx parser) = first @ ys"
    using Some rec
    by (auto simp: attemptParsesAtLine_def Let_def pos_def [symmetric] cl_def [symmetric] first_def)
  from assms res have "e \<in> set first \<or> e \<in> set ys" by auto
  then show ?thesis
  proof
    assume "e \<in> set first"
    then have e: "clean t" "e = \<lparr>parse = t, code = ctx_code ctx, deletions = 0\<rparr>"
      by (auto simp: first_def split: if_splits)
    then have "hd (fst (attemptParsesAtLine L ctx parser)) = e"
      using res by (auto simp: first_def)
    with e Some show ?thesis by (simp add: clean_def)
  next
    assume "e \<in> set ys"
    from ys [OF this] show ?thesis by (simp add: clean_def pos_def)
  qed
qed

theorem attemptParsesAtLine_yields_clean_witness:
  "\<lparr>parse = \<lparr>rootNodeType = ''stream''\<rparr>, code = ''a: '', deletions = 2\<rparr>
      \<in> set (fst (attemptParsesAtLine singleLineLib
                  \<lparr>ctx_code = ''a: [b'', ctx_position = \<lparr>row = 0, column = 5\<rparr>\<rparr> flowParser))
   \<and> flowParser ''a: '' = Some \<lparr>rootNodeType = ''stream''\<rparr>
   \<and> flowParser ''a: ['' = Some \<lparr>rootNodeType = ''ERROR''\<rparr>"
proof -
  have mem: "\<lparr>parse = \<lparr>rootNodeType = ''stream''\<rparr>, code = ''a: '', deletions = 2\<rparr>
      \<in> set (fst (attemptParsesAtLine singleLineLib
                  \<lparr>ctx_code = ''a: [b'', ctx_position = \<lparr>row = 0, column = 5\<rparr>\<rparr> flowParser))"
    by (simp add: attemptParsesAtLine_def singleLineLib_def flowParser_def clean_def
        newCodeAt_def chunksAt_def eval_nat_numeral)
  have "flowParser (msValue singleLineLib ''a: '') = Some \<lparr>rootNodeType = ''stream''\<rparr>"
    using attemptParsesAtLine_yields_clean [OF mem] by simp
  then show ?thesis
    using mem by (simp add: singleLineLib_def flowParser_def)
qed

text \<open>
  Claim C2, as amended. If parsing the full buffer yields a clean result, that parse,
  with zero deletions, is the first element of the sequence. It is not the sole
  attempt: nothing ends the generator after a yield. Whatever the full-buffer parse
  gave, when the cursor's row is inside the buffer and the engine does not throw, every
  one of the reparse attempts for 1 up to \<open>column\<close> deletions is made and every clean one
  is yielded, in this order, after the full-buffer parse if that was clean: the sequence
  ends when the column budget is exhausted and not at the first clean parse.
\<close>

theorem attemptParsesAtLine_clean_first:
  assumes "parser (msValue L (ctx_code ctx)) = Some t"
  shows "(clean t \<longrightarrow>
           (\<exists>rest. fst (attemptParsesAtLine L ctx parser)
              = \<lparr>parse = t, code = ctx_code ctx, deletions = 0\<rparr> # rest))
     \<and> (0 \<le> row (ctx_position ctx)
          \<and> row (ctx_position ctx) < int (length (rangedLines L (msValue L (ctx_code ctx))))
          \<and> (\<forall>k. 1 \<le> k \<and> k \<le> column (ctx_position ctx) \<longrightarrow>
                 parser (msValue L (newCodeAt L (ctx_code ctx)
                    (rangedLines L (msValue L (ctx_code ctx))) (ctx_position ctx) k)) \<noteq> None)
        \<longrightarrow> attemptParsesAtLine L ctx parser
              = ((if clean t then [\<lparr>parse = t, code = ctx_code ctx, deletions = 0\<rparr>] else [])
                 @ map (\<lambda>k. \<lparr>parse = the (parser (msValue L (newCodeAt L (ctx_code ctx)
                                   (rangedLines L (msValue L (ctx_code ctx))) (ctx_position ctx) k))),
                              code = newCodeAt L (ctx_code ctx)
                                   (rangedLines L (msValue L (ctx_code ctx))) (ctx_position ctx) k,
                              deletions = k\<rparr>)
                     (filter (\<lambda>k. clean (the (parser (msValue L (newCodeAt L (ctx_code ctx)
                                   (rangedLines L (msValue L (ctx_code ctx))) (ctx_position ctx) k)))))
                        [1 ..< column (ctx_position ctx) + 1]),
                 Returned))"
proof -
  define pos where "pos = ctx_position ctx"
  define cl where "cl = rangedLines L (msValue L (ctx_code ctx))"
  obtain ys r where rec: "reparse L parser (ctx_code ctx) cl pos (column pos) 0 = (ys, r)"
    by (cases "reparse L parser (ctx_code ctx) cl pos (column pos) 0")
  have head: "\<exists>rest. fst (attemptParsesAtLine L ctx parser)
            = \<lparr>parse = t, code = ctx_code ctx, deletions = 0\<rparr> # rest" if "clean t"
    using assms that rec
    by (auto simp: attemptParsesAtLine_def Let_def pos_def [symmetric] cl_def [symmetric])
  have all: "attemptParsesAtLine L ctx parser
              = ((if clean t then [\<lparr>parse = t, code = ctx_code ctx, deletions = 0\<rparr>] else [])
                 @ map (\<lambda>k. \<lparr>parse = the (parser (msValue L (newCodeAt L (ctx_code ctx) cl pos k))),
                              code = newCodeAt L (ctx_code ctx) cl pos k, deletions = k\<rparr>)
                     (filter (\<lambda>k. clean (the (parser (msValue L (newCodeAt L (ctx_code ctx) cl pos k)))))
                        [1 ..< column pos + 1]),
                 Returned)"
    if inside: "0 \<le> row pos" "row pos < int (length cl)"
      and total: "\<forall>k. 1 \<le> k \<and> k \<le> column pos \<longrightarrow>
                 parser (msValue L (newCodeAt L (ctx_code ctx) cl pos k)) \<noteq> None"
  proof -
    have "reparse L parser (ctx_code ctx) cl pos (column pos) 0
        = (map (\<lambda>k. \<lparr>parse = the (parser (msValue L (newCodeAt L (ctx_code ctx) cl pos k))),
                      code = newCodeAt L (ctx_code ctx) cl pos k, deletions = k\<rparr>)
             (filter (\<lambda>k. clean (the (parser (msValue L (newCodeAt L (ctx_code ctx) cl pos k)))))
                [0 + 1 ..< 0 + column pos + 1]),
           Returned)"
      by (rule reparse_all) (use total in auto)
    then show ?thesis
      using assms inside
      by (simp add: attemptParsesAtLine_def Let_def pos_def [symmetric] cl_def [symmetric])
  qed
  show ?thesis
    using head all unfolding pos_def cl_def by blast
qed

theorem attemptParsesAtLine_clean_first_witness:
  "hd (fst (attemptParsesAtLine singleLineLib
          \<lparr>ctx_code = ''ab'', ctx_position = \<lparr>row = 0, column = 2\<rparr>\<rparr> flowParser))
       = \<lparr>parse = \<lparr>rootNodeType = ''stream''\<rparr>, code = ''ab'', deletions = 0\<rparr>
   \<and> flowParser ''a: [b'' = Some \<lparr>rootNodeType = ''ERROR''\<rparr>
   \<and> attemptParsesAtLine singleLineLib
          \<lparr>ctx_code = ''a: [b'', ctx_position = \<lparr>row = 0, column = 5\<rparr>\<rparr> flowParser
       = ([\<lparr>parse = \<lparr>rootNodeType = ''stream''\<rparr>, code = ''a: '', deletions = 2\<rparr>,
           \<lparr>parse = \<lparr>rootNodeType = ''stream''\<rparr>, code = ''a:'', deletions = 3\<rparr>,
           \<lparr>parse = \<lparr>rootNodeType = ''stream''\<rparr>, code = ''a'', deletions = 4\<rparr>,
           \<lparr>parse = \<lparr>rootNodeType = ''stream''\<rparr>, code = [], deletions = 5\<rparr>], Returned)"
proof -
  define ok :: "string yamlContext"
    where "ok = \<lparr>ctx_code = ''ab'', ctx_position = \<lparr>row = 0, column = 2\<rparr>\<rparr>"
  define bad :: "string yamlContext"
    where "bad = \<lparr>ctx_code = ''a: [b'', ctx_position = \<lparr>row = 0, column = 5\<rparr>\<rparr>"
  have p: "flowParser (msValue singleLineLib (ctx_code ok)) = Some \<lparr>rootNodeType = ''stream''\<rparr>"
    by (simp add: flowParser_def singleLineLib_def ok_def)
  have c: "clean \<lparr>rootNodeType = ''stream''\<rparr>"
    by (simp add: clean_def)
  from attemptParsesAtLine_clean_first [where parser = flowParser and L = singleLineLib
      and ctx = ok, OF p, THEN conjunct1, THEN mp, OF c]
  have first: "hd (fst (attemptParsesAtLine singleLineLib ok flowParser))
       = \<lparr>parse = \<lparr>rootNodeType = ''stream''\<rparr>, code = ''ab'', deletions = 0\<rparr>"
    by (auto simp: ok_def)
  have q: "flowParser (msValue singleLineLib (ctx_code bad)) = Some \<lparr>rootNodeType = ''ERROR''\<rparr>"
    by (simp add: flowParser_def singleLineLib_def bad_def)
  have inside: "0 \<le> row (ctx_position bad)
      \<and> row (ctx_position bad) < int (length (rangedLines singleLineLib (msValue singleLineLib (ctx_code bad))))
      \<and> (\<forall>k. 1 \<le> k \<and> k \<le> column (ctx_position bad) \<longrightarrow>
            flowParser (msValue singleLineLib (newCodeAt singleLineLib (ctx_code bad)
               (rangedLines singleLineLib (msValue singleLineLib (ctx_code bad))) (ctx_position bad) k))
              \<noteq> None)"
    by (simp add: flowParser_def singleLineLib_def bad_def)
  from attemptParsesAtLine_clean_first [where parser = flowParser and L = singleLineLib
      and ctx = bad, OF q, THEN conjunct2, THEN mp, OF inside]
  have "attemptParsesAtLine singleLineLib bad flowParser
       = ([\<lparr>parse = \<lparr>rootNodeType = ''stream''\<rparr>, code = ''a: '', deletions = 2\<rparr>,
           \<lparr>parse = \<lparr>rootNodeType = ''stream''\<rparr>, code = ''a:'', deletions = 3\<rparr>,
           \<lparr>parse = \<lparr>rootNodeType = ''stream''\<rparr>, code = ''a'', deletions = 4\<rparr>,
           \<lparr>parse = \<lparr>rootNodeType = ''stream''\<rparr>, code = [], deletions = 5\<rparr>], Returned)"
    by (simp add: bad_def flowParser_def clean_def upt_rec newCodeAt_def chunksAt_def singleLineLib_def)
  with first show ?thesis
    unfolding ok_def bad_def by (simp add: flowParser_def)
qed

text \<open>
  The claim as stated fails: the full-buffer parse of \<open>ab\<close> is clean, and with the
  cursor at column 2 the sequence has three elements, with 0, 1 and 2 deletions.
\<close>

theorem attemptParsesAtLine_sole_attempt_counterexample:
  "okParser (msValue singleLineLib ''ab'') = Some \<lparr>rootNodeType = ''stream''\<rparr>
   \<and> clean \<lparr>rootNodeType = ''stream''\<rparr>
   \<and> fst (attemptParsesAtLine singleLineLib
          \<lparr>ctx_code = ''ab'', ctx_position = \<lparr>row = 0, column = 2\<rparr>\<rparr> okParser)
       = [\<lparr>parse = \<lparr>rootNodeType = ''stream''\<rparr>, code = ''ab'', deletions = 0\<rparr>,
          \<lparr>parse = \<lparr>rootNodeType = ''stream''\<rparr>, code = ''a'', deletions = 1\<rparr>,
          \<lparr>parse = \<lparr>rootNodeType = ''stream''\<rparr>, code = '''', deletions = 2\<rparr>]
   \<and> fst (attemptParsesAtLine singleLineLib
          \<lparr>ctx_code = ''ab'', ctx_position = \<lparr>row = 0, column = 2\<rparr>\<rparr> okParser)
       \<noteq> [\<lparr>parse = \<lparr>rootNodeType = ''stream''\<rparr>, code = ''ab'', deletions = 0\<rparr>]"
  by (simp add: attemptParsesAtLine_def singleLineLib_def okParser_def clean_def
      newCodeAt_def chunksAt_def eval_nat_numeral)

text \<open>
  Claim C3, as amended. When the cursor's row is negative or not below the number of
  lines, attemptParsesAtLine makes no reparse attempt: the sequence is empty if the
  full-buffer parse is not clean (or the engine throws), and otherwise it consists of the
  full-buffer parse alone, which is yielded before the row is looked at.
\<close>

theorem attemptParsesAtLine_row_outside:
  assumes "row (ctx_position ctx) < 0
     \<or> row (ctx_position ctx) \<ge> int (length (rangedLines L (msValue L (ctx_code ctx))))"
  shows "attemptParsesAtLine L ctx parser
     = (case parser (msValue L (ctx_code ctx)) of
          None \<Rightarrow> []
        | Some t \<Rightarrow> if clean t then [\<lparr>parse = t, code = ctx_code ctx, deletions = 0\<rparr>] else [],
        Returned)"
  using assms by (auto simp: attemptParsesAtLine_def Let_def split: option.splits)

theorem attemptParsesAtLine_row_outside_witness:
  "int (length (rangedLines singleLineLib (msValue singleLineLib ''a: [b''))) \<le> 1
   \<and> attemptParsesAtLine singleLineLib
        \<lparr>ctx_code = ''a: [b'', ctx_position = \<lparr>row = 1, column = 5\<rparr>\<rparr> flowParser = ([], Returned)
   \<and> attemptParsesAtLine singleLineLib
        \<lparr>ctx_code = ''a: b'', ctx_position = \<lparr>row = - 1, column = 4\<rparr>\<rparr> flowParser
       = ([\<lparr>parse = \<lparr>rootNodeType = ''stream''\<rparr>, code = ''a: b'', deletions = 0\<rparr>], Returned)"
proof -
  have "attemptParsesAtLine singleLineLib
        \<lparr>ctx_code = ''a: [b'', ctx_position = \<lparr>row = 1, column = 5\<rparr>\<rparr> flowParser = ([], Returned)"
    using attemptParsesAtLine_row_outside [where L = singleLineLib and parser = flowParser
        and ctx = "\<lparr>ctx_code = ''a: [b'', ctx_position = \<lparr>row = 1, column = 5\<rparr>\<rparr>"]
    by (simp add: singleLineLib_def flowParser_def clean_def)
  moreover have "attemptParsesAtLine singleLineLib
        \<lparr>ctx_code = ''a: b'', ctx_position = \<lparr>row = - 1, column = 4\<rparr>\<rparr> flowParser
       = ([\<lparr>parse = \<lparr>rootNodeType = ''stream''\<rparr>, code = ''a: b'', deletions = 0\<rparr>], Returned)"
    using attemptParsesAtLine_row_outside [where L = singleLineLib and parser = flowParser
        and ctx = "\<lparr>ctx_code = ''a: b'', ctx_position = \<lparr>row = - 1, column = 4\<rparr>\<rparr>"]
    by (simp add: singleLineLib_def flowParser_def clean_def)
  ultimately show ?thesis by (simp add: singleLineLib_def)
qed

text \<open>
  The claim as stated fails: the buffer \<open>a: b\<close> has one line, the cursor is on row 3,
  and the sequence is not empty.
\<close>

theorem attemptParsesAtLine_row_outside_counterexample:
  "int (length (rangedLines singleLineLib (msValue singleLineLib ''a: b''))) \<le> 3
   \<and> fst (attemptParsesAtLine singleLineLib
          \<lparr>ctx_code = ''a: b'', ctx_position = \<lparr>row = 3, column = 4\<rparr>\<rparr> okParser)
       = [\<lparr>parse = \<lparr>rootNodeType = ''stream''\<rparr>, code = ''a: b'', deletions = 0\<rparr>]
   \<and> fst (attemptParsesAtLine singleLineLib
          \<lparr>ctx_code = ''a: b'', ctx_position = \<lparr>row = 3, column = 4\<rparr>\<rparr> okParser) \<noteq> []"
  by (simp add: attemptParsesAtLine_def singleLineLib_def okParser_def clean_def)

section \<open>Properties of the indentation locator\<close>

lemma descend_returns:
  assumes wf: "\<forall>k < length pred. \<exists>p. pred ! k = Some p \<and> - 1 \<le> p \<and> p < int k"
    and n: "- 1 \<le> n" "n < int (length pred)"
  shows "\<exists>v. descend pred ind li (Some n) = Some (Some v) \<and> - 1 \<le> v \<and> v \<le> n"
  using n
proof (induction "nat (n + 1)" arbitrary: n rule: less_induct)
  case less
  show ?case
  proof (cases "n \<ge> 0 \<and> (case jsGet ind n of None \<Rightarrow> False | Some x \<Rightarrow> x \<ge> li)")
    case False
    have "descend pred ind li (Some n) = Some (Some n)"
      by (subst descend.simps) (simp add: False)
    with less.prems show ?thesis by simp
  next
    case True
    then have "0 \<le> n" by blast
    then have "nat n < length pred" using less.prems by linarith
    with wf obtain p where "pred ! nat n = Some p" "- 1 \<le> p" "p < int (nat n)"
      by blast
    with \<open>0 \<le> n\<close> have p: "pred ! nat n = Some p" "- 1 \<le> p" "p < n"
      by simp_all
    have get: "jsGetO pred n = Some p"
      using True less.prems p by (simp add: jsGetO_def)
    have "\<exists>v. descend pred ind li (Some p) = Some (Some v) \<and> - 1 \<le> v \<and> v \<le> p"
    proof (rule less.hyps)
      show "nat (p + 1) < nat (n + 1)" using p by linarith
      show "- 1 \<le> p" by (rule p)
      show "p < int (length pred)" using p less.prems by linarith
    qed
    then obtain v where v: "descend pred ind li (Some p) = Some (Some v)" "- 1 \<le> v" "v \<le> p"
      by blast
    have "descend pred ind li (Some n) = descend pred ind li (Some p)"
      using True get by (subst descend.simps) simp
    with v p show ?thesis by auto
  qed
qed

lemma jsSet_append: "jsSet xs (length xs) v = xs @ [v]"
  by (simp add: jsSet_def)

lemma indentStep_inv:
  assumes "indentInv i st"
  shows "\<exists>st'. indentStep i line st = Some (Inr st') \<and> indentInv (i + 1) st'"
proof -
  from assms have len: "length (predecessor st) = i" "length (indents st) = i"
    and wf: "\<forall>k < i. \<exists>p. predecessor st ! k = Some p \<and> - 1 \<le> p \<and> p < int k"
    and pp: "- 1 \<le> prevPredecessor st" "prevPredecessor st < int i"
    and first: "prevPredecessor st < 0 \<longrightarrow> indentation st < 0"
    by (auto simp: indentInv_def)
  have wf_app: "\<forall>k < i + 1. \<exists>p. (predecessor st @ [Some q]) ! k = Some p \<and> - 1 \<le> p \<and> p < int k"
    if "- 1 \<le> q" "q < int i" for q
    using wf that len by (auto simp: nth_append less_Suc_eq)
  consider (deeper) "int (getIndent line) > indentation st"
    | (blank) "\<not> int (getIndent line) > indentation st" "length (trim line) = 0"
    | (same) "\<not> int (getIndent line) > indentation st" "length (trim line) \<noteq> 0"
        "int (getIndent line) = indentation st"
    | (shallower) "\<not> int (getIndent line) > indentation st" "length (trim line) \<noteq> 0"
        "int (getIndent line) < indentation st"
    by linarith
  then show ?thesis
  proof cases
    case deeper
    then show ?thesis
      using len pp wf_app [of "prevPredecessor st"]
      by (simp add: indentStep_def Let_def jsSet_append [of "predecessor st", unfolded len] indentInv_def)
  next
    case blank
    then have "0 \<le> prevPredecessor st" using first by linarith
    with pp wf obtain p where p: "predecessor st ! nat (prevPredecessor st) = Some p"
      "- 1 \<le> p" "p < prevPredecessor st"
      by (metis int_nat_eq nat_less_iff)
    then have get: "jsGetO (predecessor st) (prevPredecessor st) = Some p"
      using pp \<open>0 \<le> prevPredecessor st\<close> len by (simp add: jsGetO_def)
    show ?thesis
      using blank len pp get wf_app [of p] p
      by (simp add: indentStep_def Let_def jsSet_append [of "predecessor st", unfolded len] indentInv_def)
  next
    case same
    then have "0 \<le> prevPredecessor st" using first by linarith
    with pp wf obtain p where p: "predecessor st ! nat (prevPredecessor st) = Some p"
      "- 1 \<le> p" "p < prevPredecessor st"
      by (metis int_nat_eq nat_less_iff)
    then have get: "jsGetO (predecessor st) (prevPredecessor st) = Some p"
      using pp \<open>0 \<le> prevPredecessor st\<close> len by (simp add: jsGetO_def)
    show ?thesis
      using same len pp get wf_app [of p] p
      by (simp add: indentStep_def Let_def jsSet_append [of "predecessor st", unfolded len] indentInv_def)
  next
    case shallower
    have "\<exists>v. descend (predecessor st) (indents st @ [getIndent line]) (getIndent line)
              (Some (prevPredecessor st)) = Some (Some v) \<and> - 1 \<le> v \<and> v \<le> prevPredecessor st"
      by (rule descend_returns) (use wf len pp in auto)
    then obtain v where v: "descend (predecessor st) (indents st @ [getIndent line]) (getIndent line)
              (Some (prevPredecessor st)) = Some (Some v)" "- 1 \<le> v" "v \<le> prevPredecessor st"
      by blast
    show ?thesis
      using shallower len pp v wf_app [of v]
      by (simp add: indentStep_def Let_def jsSet_append [of "predecessor st", unfolded len] indentInv_def)
  qed
qed

lemma indentLoop_inv:
  "indentInv i st \<Longrightarrow>
     \<exists>st'. indentLoop i ls st = Some (Inr st') \<and> indentInv (i + length ls) st'"
proof (induction ls arbitrary: i st)
  case Nil
  then show ?case by simp
next
  case (Cons line ls)
  from indentStep_inv [OF Cons.prems, of line]
  obtain st1 where st1: "indentStep i line st = Some (Inr st1)" "indentInv (i + 1) st1"
    by blast
  from Cons.IH [OF st1(2)]
  obtain st' where "indentLoop (i + 1) ls st1 = Some (Inr st')" "indentInv (i + 1 + length ls) st'"
    by blast
  with st1 show ?case by simp
qed

text \<open>
  Claim C10. For every input string getYamlIndentTree returns, without throwing: the
  result is never the exception of the final \<^verbatim>\<open>else\<close> (the four cases before it are
  exhaustive), and never a loop without end. The two arrays it returns have one entry
  per line of the input; every entry of \<^verbatim>\<open>predecessor\<close> is defined and is \<open>-1\<close> or the
  index of an earlier line.
\<close>

theorem getYamlIndentTree_returns:
  "\<exists>pred ind. getYamlIndentTree lines c = Some (Inr (pred, ind))
     \<and> length pred = length (lines c) \<and> length ind = length (lines c)
     \<and> (\<forall>k < length (lines c). \<exists>p. pred ! k = Some p \<and> - 1 \<le> p \<and> p < int k)"
proof -
  have "indentInv 0 \<lparr>predecessor = [], indents = [], indentation = - 1, prevPredecessor = - 1\<rparr>"
    by (simp add: indentInv_def)
  from indentLoop_inv [OF this, of "lines c"]
  obtain st where st: "indentLoop 0 (lines c)
        \<lparr>predecessor = [], indents = [], indentation = - 1, prevPredecessor = - 1\<rparr> = Some (Inr st)"
      "indentInv (length (lines c)) st"
    by auto
  then show ?thesis
    by (simp add: getYamlIndentTree_def indentInv_def)
qed

theorem getYamlIndentTree_returns_witness:
  "getYamlIndentTree (splitOn (CHR 0x0A))
       (''a:'' @ [CHR 0x0A] @ ''  b:'' @ [CHR 0x0A] @ ''    c: 1'' @ [CHR 0x0A] @ [CHR 0x0A]
          @ '' d: 2'' @ [CHR 0x0A] @ ''e:'')
     = Some (Inr ([Some (- 1), Some 0, Some 1, Some 1, Some 0, Some (- 1)], [0, 2, 4, 0, 1, 0]))
   \<and> (\<exists>pred ind. getYamlIndentTree (splitOn (CHR 0x0A))
       (''a:'' @ [CHR 0x0A] @ ''  b:'' @ [CHR 0x0A] @ ''    c: 1'' @ [CHR 0x0A] @ [CHR 0x0A]
          @ '' d: 2'' @ [CHR 0x0A] @ ''e:'') = Some (Inr (pred, ind))
        \<and> length pred = 6 \<and> length ind = 6)"
proof -
  define c where "c = ''a:'' @ [CHR 0x0A] @ ''  b:'' @ [CHR 0x0A] @ ''    c: 1'' @ [CHR 0x0A] @ [CHR 0x0A]
          @ '' d: 2'' @ [CHR 0x0A] @ ''e:''"
  have ev: "getYamlIndentTree (splitOn (CHR 0x0A)) c
     = Some (Inr ([Some (- 1), Some 0, Some 1, Some 1, Some 0, Some (- 1)], [0, 2, 4, 0, 1, 0]))"
    by (simp add: c_def getYamlIndentTree_def indentStep_def getIndent_def trimStart_def trim_def
        isWhiteSpace_def jsSet_def jsGetO_def jsGet_def descend.simps)
  have len: "length (splitOn (CHR 0x0A) c) = 6"
    by (simp add: c_def)
  from getYamlIndentTree_returns [of "splitOn (CHR 0x0A)" c]
  obtain pred ind where "getYamlIndentTree (splitOn (CHR 0x0A)) c = Some (Inr (pred, ind))"
    "length pred = length (splitOn (CHR 0x0A) c)" "length ind = length (splitOn (CHR 0x0A) c)"
    by blast
  with len have "\<exists>pred ind. getYamlIndentTree (splitOn (CHR 0x0A)) c = Some (Inr (pred, ind))
        \<and> length pred = 6 \<and> length ind = 6"
    by simp
  with ev show ?thesis unfolding c_def by blast
qed

section \<open>Properties of the schema functions and the registry\<close>

text \<open>
  Claim C5. For every schema object the classification follows the precedence type,
  anyOf, oneOf, allOf, enum, any: the first of these fields that is set decides, where
  set is what the code tests, the field's value being truthy (any array is, and a
  string unless empty). In particular a schema with a type and an enum classifies as
  its type, and a schema with an enum and none of the fields before it as enum.
\<close>

theorem schemaType_precedence:
  assumes "\<not> nullish schema"
  shows "(truthy (field schema ''type'') \<longrightarrow> schemaType schema = Inr (field schema ''type''))
     \<and> (\<not> truthy (field schema ''type'') \<and> truthy (field schema ''anyOf'')
          \<longrightarrow> schemaType schema = Inr (Str ''anyOf''))
     \<and> (\<not> truthy (field schema ''type'') \<and> \<not> truthy (field schema ''anyOf'')
          \<and> truthy (field schema ''oneOf'')
          \<longrightarrow> schemaType schema = Inr (Str ''oneOf''))
     \<and> (\<not> truthy (field schema ''type'') \<and> \<not> truthy (field schema ''anyOf'')
          \<and> \<not> truthy (field schema ''oneOf'') \<and> truthy (field schema ''allOf'')
          \<longrightarrow> schemaType schema = Inr (Str ''allOf''))
     \<and> (\<not> truthy (field schema ''type'') \<and> \<not> truthy (field schema ''anyOf'')
          \<and> \<not> truthy (field schema ''oneOf'') \<and> \<not> truthy (field schema ''allOf'')
          \<and> truthy (field schema ''enum'')
          \<longrightarrow> schemaType schema = Inr (Str ''enum''))
     \<and> (\<not> truthy (field schema ''type'') \<and> \<not> truthy (field schema ''anyOf'')
          \<and> \<not> truthy (field schema ''oneOf'') \<and> \<not> truthy (field schema ''allOf'')
          \<and> \<not> truthy (field schema ''enum'')
          \<longrightarrow> schemaType schema = Inr (Str ''any''))
     \<and> schemaType (Obj [(''type'', Str ''string''), (''enum'', Arr vs)]) = Inr (Str ''string'')
     \<and> schemaType (Obj [(''enum'', Arr [Num 1, Num 2])]) = Inr (Str ''enum'')"
  using assms by (simp add: schemaType_def nullish_def)

theorem schemaType_precedence_witness:
  "\<not> nullish (Obj [(''enum'', Arr [Str ''a'']), (''allOf'', Arr []), (''anyOf'', Arr [])])
   \<and> schemaType (Obj [(''enum'', Arr [Str ''a'']), (''allOf'', Arr []), (''anyOf'', Arr [])])
       = Inr (Str ''anyOf'')
   \<and> schemaType (Obj [(''type'', Str ''string''), (''enum'', Arr [Str ''a'', Str ''b''])])
       = Inr (Str ''string'')"
proof -
  have n: "\<not> nullish (Obj [(''enum'', Arr [Str ''a'']), (''allOf'', Arr []), (''anyOf'', Arr [])])"
    by (simp add: nullish_def)
  show ?thesis
    using n schemaType_precedence [OF n, of "[Str ''a'', Str ''b'']"] by simp
qed

text \<open>
  Claim C6. Registration by \<^verbatim>\<open>$id\<close> is idempotent. A call of \<^verbatim>\<open>define\<close> with a schema
  whose \<^verbatim>\<open>$id\<close> is already registered does nothing; so a second call, with any schema
  of the same \<^verbatim>\<open>$id\<close>, leaves the registry as the first call left it, and where the
  first call registered its schema, a later lookup of the \<^verbatim>\<open>$id\<close> returns that schema.
  So does setSchemaDefinition.
\<close>

theorem defineSchema_idempotent:
  assumes "\<not> nullish s" and "\<not> nullish s'"
    and "toStringJS (field s' ''$id'') = toStringJS (field s ''$id'')"
  shows "(hasSchemaDefinition reg (field s ''$id'') \<longrightarrow> defineSchema reg s = (reg, Inr None))
     \<and> fst (defineSchema (fst (defineSchema reg s)) s') = fst (defineSchema reg s)
     \<and> snd (defineSchema (fst (defineSchema reg s)) s') = Inr None
     \<and> (\<not> hasSchemaDefinition reg (field s ''$id'') \<longrightarrow>
          getSchemaDefinition (fst (defineSchema (fst (defineSchema reg s)) s')) (field s ''$id'')
            = Inr (Own s))
     \<and> (\<forall>reg1. setSchemaDefinition reg s = Inr reg1 \<longrightarrow> setSchemaDefinition reg1 s' = Inr reg1)"
proof -
  have registered: "defineSchema r x = (r, Inr None)"
    if "hasSchemaDefinition r (field x ''$id'')" "\<not> nullish x" for r x
    using that by (simp add: defineSchema_def)
  have after: "hasSchemaDefinition (fst (defineSchema reg s)) (field s ''$id'')"
    using assms(1)
    by (auto simp: defineSchema_def setSchemaDefinition_def hasSchemaDefinition_def
        definitionsLookup_def nullish_def split: option.splits)
  then have "hasSchemaDefinition (fst (defineSchema reg s)) (field s' ''$id'')"
    using assms(3) by (simp add: hasSchemaDefinition_def)
  then have second: "defineSchema (fst (defineSchema reg s)) s' = (fst (defineSchema reg s), Inr None)"
    using assms(2) by (rule registered)
  have lookup: "getSchemaDefinition (fst (defineSchema reg s)) (field s ''$id'') = Inr (Own s)"
    if "\<not> hasSchemaDefinition reg (field s ''$id'')"
    using that assms(1)
    by (auto simp: defineSchema_def setSchemaDefinition_def hasSchemaDefinition_def
        getSchemaDefinition_def definitionsLookup_def nullish_def split: option.splits)
  have set: "setSchemaDefinition reg1 s' = Inr reg1" if "setSchemaDefinition reg s = Inr reg1" for reg1
    using that assms
    by (auto simp: setSchemaDefinition_def definitionsLookup_def nullish_def Let_def
        split: option.splits if_splits)
  show ?thesis
    using registered [of reg s] assms(1) second lookup set by simp
qed

theorem defineSchema_idempotent_witness:
  "\<not> nullish (Obj [(''$id'', Str ''a''), (''type'', Str ''string'')])
   \<and> \<not> nullish (Obj [(''$id'', Str ''a''), (''type'', Str ''number'')])
   \<and> \<not> hasSchemaDefinition Map.empty (Str ''a'')
   \<and> getSchemaDefinition
        (fst (defineSchema
                (fst (defineSchema Map.empty (Obj [(''$id'', Str ''a''), (''type'', Str ''string'')])))
                (Obj [(''$id'', Str ''a''), (''type'', Str ''number'')])))
        (Str ''a'')
       = Inr (Own (Obj [(''$id'', Str ''a''), (''type'', Str ''string'')]))"
proof -
  have a: "\<not> nullish (Obj [(''$id'', Str ''a''), (''type'', Str ''string'')])"
    and b: "\<not> nullish (Obj [(''$id'', Str ''a''), (''type'', Str ''number'')])"
    by (simp_all add: nullish_def)
  have c: "toStringJS (field (Obj [(''$id'', Str ''a''), (''type'', Str ''number'')]) ''$id'')
         = toStringJS (field (Obj [(''$id'', Str ''a''), (''type'', Str ''string'')]) ''$id'')"
    by simp
  have d: "\<not> hasSchemaDefinition Map.empty (Str ''a'')"
    by (simp add: hasSchemaDefinition_def definitionsLookup_def objectPrototypeKeys_def)
  have id: "field (Obj [(''$id'', Str ''a''), (''type'', Str ''string'')]) ''$id'' = Str ''a''"
    by simp
  have "\<not> hasSchemaDefinition Map.empty
            (field (Obj [(''$id'', Str ''a''), (''type'', Str ''string'')]) ''$id'') \<longrightarrow>
        getSchemaDefinition
          (fst (defineSchema
                  (fst (defineSchema Map.empty (Obj [(''$id'', Str ''a''), (''type'', Str ''string'')])))
                  (Obj [(''$id'', Str ''a''), (''type'', Str ''number'')])))
          (field (Obj [(''$id'', Str ''a''), (''type'', Str ''string'')]) ''$id'')
         = Inr (Own (Obj [(''$id'', Str ''a''), (''type'', Str ''string'')]))"
    using defineSchema_idempotent [OF a b c, of Map.empty] by blast
  then have "getSchemaDefinition
          (fst (defineSchema
                  (fst (defineSchema Map.empty (Obj [(''$id'', Str ''a''), (''type'', Str ''string'')])))
                  (Obj [(''$id'', Str ''a''), (''type'', Str ''number'')])))
          (Str ''a'')
         = Inr (Own (Obj [(''$id'', Str ''a''), (''type'', Str ''string'')]))"
    unfolding id using d by blast
  with a b d show ?thesis by blast
qed

text \<open>
  Claim C7 fails on the code. The callback deletes an authoring field only when its
  value is truthy, so a field whose value is \<^verbatim>\<open>false\<close> stays: the normalised copy of
  a string schema with \<^verbatim>\<open>exhaustiveCompletions: false\<close> still has that field, while its
  \<^verbatim>\<open>completions\<close> are removed.
\<close>

theorem normalizeSchema_keeps_false_field:
  "normalizeSchema (Obj [(''type'', Str ''string''), (''completions'', Arr [Str ''a'']),
                        (''exhaustiveCompletions'', Bool False)])
     = Inr (Obj [(''type'', Str ''string''), (''exhaustiveCompletions'', Bool False)])"
  by (simp add: normalizeSchema_def deepCopy_def bindE_def stripAuthoring_def nullish_def
      schemaType_def deleteProps_def)

theorem normalizeSchema_keeps_false_field_witness:
  "\<exists>n. normalizeSchema (Obj [(''type'', Str ''string''), (''completions'', Arr [Str ''a'']),
                        (''exhaustiveCompletions'', Bool False)]) = Inr n
     \<and> field n ''exhaustiveCompletions'' = Bool False
     \<and> field n ''completions'' = Undefined"
  using normalizeSchema_keeps_false_field by simp

section \<open>Properties of the diagnostic handlers\<close>

lemma boolean_schema_truthy: "field schema ''type'' = Str ''boolean'' \<Longrightarrow> truthy schema"
  by (cases schema) simp_all

lemma field_truthy: "truthy (field v k) \<Longrightarrow> truthy v \<and> \<not> nullish v"
  by (cases v) (simp_all add: nullish_def)

text \<open>
  What checkForBadBoolean does for an error with keyword \<open>type\<close> and a string as violating
  value when the boolean schema is the value of \<^verbatim>\<open>params.schema\<close>: for a string of the first
  list the new message ends with the suggestion of \<open>true\<close>, for one of the second list
  with the suggestion of \<open>false\<close>, and any other string leaves the error as it is.
\<close>

lemma checkForBadBoolean_params_schema:
  assumes "violatingObject_result e = Str s" and "keyword (ajvError e) = ''type''"
    and "field (field (params (ajvError e)) ''schema'') ''type'' = Str ''boolean''"
  shows "(s \<in> set yesses \<longrightarrow> checkForBadBoolean L e annotated schema
            = Inr (e\<lparr>niceError := badBooleanError L e annotated
                                     (field (params (ajvError e)) ''schema'') True\<rparr>))
     \<and> (s \<in> set nos \<longrightarrow> checkForBadBoolean L e annotated schema
            = Inr (e\<lparr>niceError := badBooleanError L e annotated
                                     (field (params (ajvError e)) ''schema'') False\<rparr>))
     \<and> (s \<notin> set yesses \<and> s \<notin> set nos \<longrightarrow> checkForBadBoolean L e annotated schema = Inr e)"
proof -
  have t: "truthy (field (params (ajvError e)) ''schema'')"
    using assms(3) by (rule boolean_schema_truthy)
  then have n: "\<not> nullish (params (ajvError e))"
    using field_truthy by blast
  have "s \<in> set nos \<Longrightarrow> s \<notin> set yesses"
    by (auto simp: nos_def yesses_def)
  then show ?thesis
    using assms t n by (auto simp: checkForBadBoolean_def Let_def)
qed

lemma badBooleanError_info:
  "info (badBooleanError L e annotated schema fix)
     = info (addFileInfo L (addInstancePathInfo L
               \<lparr>heading = formatHeading L e annotated schema,
                error = [''The value '' @ quotedStringColor L (getVerbatimInput L e) @ '' is a string.''],
                info = [], location = location (niceError e)\<rparr>
               (ajv_instancePath (ajvError e))) (source e))
       @ [''Quarto uses YAML 1.2, which interprets booleans strictly.'',
          ''Try using '' @ quotedStringColor L (if fix then ''true'' else ''false'') @ '' instead.'']"
  by (simp add: badBooleanError_def Let_def)

lemma checkForBadBoolean_no_params:
  "nullish (params (ajvError e)) \<Longrightarrow> checkForBadBoolean L e annotated schema = Inl TypeError"
  by (simp add: checkForBadBoolean_def)

text \<open>
  Claim C8 fails on the code. The schema checkForBadBoolean tests is \<^verbatim>\<open>params.schema\<close>
  alone, where the handlers beside it (innerDescription, checkForSimilarKey) take
  \<^verbatim>\<open>(params && params.schema) || parentSchema\<close>. For an error with keyword \<open>type\<close>, the
  string \<open>yes\<close> as violating value and the boolean schema as \<^verbatim>\<open>parentSchema\<close>, with the
  \<^verbatim>\<open>params\<close> of a type error (\<^verbatim>\<open>{type: "boolean"}\<close>), the handler returns the error as it
  is: no explanation of strict boolean parsing and no suggestion of \<open>true\<close>.
\<close>

theorem checkForBadBoolean_ignores_parentSchema:
  assumes "violatingObject_result e = Str ''yes''" and "keyword (ajvError e) = ''type''"
    and "params (ajvError e) = Obj [(''type'', Str ''boolean'')]"
    and "parentSchema (ajvError e) = Obj [(''type'', Str ''boolean'')]"
  shows "checkForBadBoolean L e annotated schema = Inr e"
  using assms by (simp add: checkForBadBoolean_def nullish_def)

theorem checkForBadBoolean_ignores_parentSchema_witness:
  "violatingObject_result yesParentError = Str ''yes''
   \<and> keyword (ajvError yesParentError) = ''type''
   \<and> field (parentSchema (ajvError yesParentError)) ''type'' = Str ''boolean''
   \<and> checkForBadBoolean plainErrlib yesParentError () Undefined = Inr yesParentError
   \<and> info (niceError yesParentError) = []"
proof -
  have 1: "violatingObject_result yesParentError = Str ''yes''"
    and 2: "keyword (ajvError yesParentError) = ''type''"
    and 3: "params (ajvError yesParentError) = Obj [(''type'', Str ''boolean'')]"
    and 4: "parentSchema (ajvError yesParentError) = Obj [(''type'', Str ''boolean'')]"
    and 5: "info (niceError yesParentError) = []"
    by (simp_all add: yesParentError_def)
  have "checkForBadBoolean plainErrlib yesParentError () Undefined = Inr yesParentError"
    by (rule checkForBadBoolean_ignores_parentSchema [OF 1 2 3 4])
  with 1 2 4 5 show ?thesis by simp
qed

text \<open>
  The example of the claim in the shape the handler does recognise: with the boolean
  schema under \<^verbatim>\<open>params.schema\<close>, the string \<open>yes\<close> gets the suggestion of \<open>true\<close>.
\<close>

lemma checkForBadBoolean_yes_example:
  "\<exists>e'. checkForBadBoolean plainErrlib yesError () Undefined = Inr e'
     \<and> info (niceError e')
         = [''Quarto uses YAML 1.2, which interprets booleans strictly.'', ''Try using true instead.'']"
proof -
  have "violatingObject_result yesError = Str ''yes''" "keyword (ajvError yesError) = ''type''"
    "field (field (params (ajvError yesError)) ''schema'') ''type'' = Str ''boolean''"
    "''yes'' \<in> set yesses"
    by (simp_all add: yesError_def yesses_def)
  then have "checkForBadBoolean plainErrlib yesError () Undefined
      = Inr (yesError\<lparr>niceError := badBooleanError plainErrlib yesError ()
                                     (field (params (ajvError yesError)) ''schema'') True\<rparr>)"
    using checkForBadBoolean_params_schema [of yesError "''yes''" plainErrlib "()" Undefined]
    by blast
  moreover have "info (badBooleanError plainErrlib yesError ()
                         (field (params (ajvError yesError)) ''schema'') True)
      = [''Quarto uses YAML 1.2, which interprets booleans strictly.'', ''Try using true instead.'']"
    unfolding badBooleanError_info by (simp add: plainErrlib_def)
  ultimately show ?thesis by simp
qed

text \<open>
  The keys checkForSimilarKey keeps: after the loop over a non-empty list of keys,
  \<^verbatim>\<open>bestDistance\<close> is the least distance to the offending key and \<^verbatim>\<open>bestKey\<close> holds
  exactly the keys at that distance, in the order of the list.
\<close>

lemma foldl_bestStep:
  assumes "keys \<noteq> []"
  shows "foldl (bestStep ed f) None keys
     = Some (filter (\<lambda>k. ed k f = Min ((\<lambda>k. ed k f) ` set keys)) keys,
             Min ((\<lambda>k. ed k f) ` set keys))"
  using assms
proof (induction keys rule: rev_induct)
  case Nil
  then show ?case by simp
next
  case (snoc x xs)
  show ?case
  proof (cases "xs = []")
    case True
    then show ?thesis by simp
  next
    case False
    define m where "m = Min ((\<lambda>k. ed k f) ` set xs)"
    have IH: "foldl (bestStep ed f) None xs = Some (filter (\<lambda>k. ed k f = m) xs, m)"
      using snoc.IH [OF False] by (simp add: m_def)
    have least: "\<And>k. k \<in> set xs \<Longrightarrow> m \<le> ed k f"
      by (simp add: m_def)
    have Min_snoc: "Min ((\<lambda>k. ed k f) ` set (xs @ [x])) = min (ed x f) m"
      using False by (simp add: m_def)
    consider (less) "ed x f < m" | (equal) "ed x f = m" | (more) "m < ed x f"
      by linarith
    then show ?thesis
    proof cases
      case less
      then have "filter (\<lambda>k. ed k f = ed x f) xs = []"
        using least by (fastforce simp: filter_empty_conv)
      with less show ?thesis
        unfolding Min_snoc by (simp add: IH min_def)
    next
      case equal
      then show ?thesis
        unfolding Min_snoc by (simp add: IH)
    next
      case more
      then show ?thesis
        unfolding Min_snoc by (simp add: IH min_def)
    qed
  qed
qed

text \<open>
  The example of claim C1: with the accepted keys \<open>title\<close> and \<open>subtitle\<close>, at distances
  7 and 1 from the offending key \<open>subtitel\<close>, the one suggestion is \<open>subtitle\<close>.
\<close>

lemma checkForSimilarKey_subtitle:
  assumes "schemaKeys L (field (field (params (ajvError e)) ''schema'') ''$id'') = Inr [''title'', ''subtitle'']"
    and "truthy (field (params (ajvError e)) ''schema'')"
    and "editDistance L ''title'' ''subtitel'' = 7"
    and "editDistance L ''subtitle'' ''subtitel'' = 1"
    and "toNumberString L ''subtitel'' = None"
    and "instancePath e = ''/subtitel''"
  shows "checkForSimilarKey L e annotated schema
     = Inr (e\<lparr>niceError := (niceError e)
              \<lparr>info := info (niceError e) @ [''Did you mean '' @ blue L ''subtitle'' @ ''?'']\<rparr>\<rparr>)"
proof -
  have "truthy (params (ajvError e))"
    using assms(2) field_truthy by blast
  moreover have "field (params (ajvError e)) ''schema'' \<noteq> Undefined"
    "field (params (ajvError e)) ''schema'' \<noteq> Null"
    using assms(2) by auto
  ultimately show ?thesis
    using assms by (simp add: checkForSimilarKey_def getLastFragment_def didYouMean_def)
qed

text \<open>
  Claim C1 fails on the code. The cutoff test is \<^verbatim>\<open>bestDistance * 0.3 > lastFragment.length\<close>:
  it compares three tenths of the distance with the whole length of the key, not the
  distance with three tenths of the length, as the comment above it and the claim say.
  With one accepted key, \<open>abd\<close>, at a distance between 1 and 10 from the offending key
  \<open>abc\<close>, the distance exceeds 30% of the key's length (0.9) and the handler still
  adds the suggestion.
\<close>

theorem checkForSimilarKey_suggests_beyond_cutoff:
  assumes "schemaKeys L (field (field (params (ajvError e)) ''schema'') ''$id'') = Inr [''abd'']"
    and "truthy (field (params (ajvError e)) ''schema'')"
    and "1 \<le> editDistance L ''abd'' ''abc''" and "editDistance L ''abd'' ''abc'' \<le> 10"
    and "toNumberString L ''abc'' = None"
    and "instancePath e = ''/abc''"
  shows "10 * editDistance L ''abd'' ''abc'' > 3 * length ''abc''
     \<and> checkForSimilarKey L e annotated schema
       = Inr (e\<lparr>niceError := (niceError e)
                \<lparr>info := info (niceError e) @ [''Did you mean '' @ blue L ''abd'' @ ''?'']\<rparr>\<rparr>)"
proof -
  have "truthy (params (ajvError e))"
    using assms(2) field_truthy by blast
  moreover have "field (params (ajvError e)) ''schema'' \<noteq> Undefined"
    "field (params (ajvError e)) ''schema'' \<noteq> Null"
    using assms(2) by auto
  ultimately show ?thesis
    using assms by (simp add: checkForSimilarKey_def getLastFragment_def didYouMean_def)
qed

theorem checkForSimilarKey_suggests_beyond_cutoff_witness:
  "editDistance plainErrlib ''abd'' ''abc'' = 1
   \<and> checkForSimilarKey plainErrlib abcError () Undefined
       = Inr (abcError\<lparr>niceError := (niceError abcError)\<lparr>info := [''Did you mean abd?'']\<rparr>\<rparr>)"
proof -
  have 1: "schemaKeys plainErrlib (field (field (params (ajvError abcError)) ''schema'') ''$id'') = Inr [''abd'']"
    and 2: "truthy (field (params (ajvError abcError)) ''schema'')"
    and 3: "editDistance plainErrlib ''abd'' ''abc'' = 1"
    and 4: "toNumberString plainErrlib ''abc'' = None"
    and 5: "instancePath abcError = ''/abc''"
    by (simp_all add: plainErrlib_def abcError_def)
  have lo: "1 \<le> editDistance plainErrlib ''abd'' ''abc''"
    and hi: "editDistance plainErrlib ''abd'' ''abc'' \<le> 10"
    using 3 by simp_all
  show ?thesis
    using checkForSimilarKey_suggests_beyond_cutoff [OF 1 2 lo hi 4 5, of "()" Undefined] 3
    by (simp add: plainErrlib_def abcError_def)
qed


end
